theory Spec2Isabelle
  imports Main "HOL-Library.AList" "HOL-Library.Sublist" "HOL-Library.Word"
begin

text \<open>
  The \<^verbatim>\<open>virtualfs\<close> backend keeps a table of file records in a database beside a
  tree of content files that a consumer may empty at any time. The repository holds the
  backend twice: \<^verbatim>\<open>src/unnamed/part_000\<close>, whose \<^verbatim>\<open>Put\<close> compares before it
  writes, and \<^verbatim>\<open>src/backend/virtualfs/virtualfs.go\<close>, whose \<^verbatim>\<open>Put\<close> always
  writes. Both are embedded here over one state: the rows of the table, the content tree,
  and the failures the database is about to report. The theorems that follow the
  definitions settle what the specification says of listing, lookup, reconciliation,
  tombstones and the removal of directories.
\<close>

section \<open>Strings and slash-separated paths\<close>

text \<open>
  The backend is written against Go's \<^verbatim>\<open>strings\<close>, \<^verbatim>\<open>path\<close> and
  \<^verbatim>\<open>path/filepath\<close> packages. The functions below follow the library source
  (\<^verbatim>\<open>path.Clean\<close>, \<^verbatim>\<open>path.Split\<close>, \<^verbatim>\<open>path.Dir\<close>, \<^verbatim>\<open>path.Join\<close>);
  on a Unix host \<^verbatim>\<open>filepath\<close> computes the same results with separator \<^verbatim>\<open>/\<close>,
  which is the host assumed throughout.
\<close>

text \<open>\<^verbatim>\<open>strings.Split(s, "/")\<close>: the pieces between separators; never empty.\<close>

fun Split :: "string \<Rightarrow> string list" where
  "Split [] = [[]]"
| "Split (c # cs) =
     (if c = CHR ''/'' then [] # Split cs
      else (case Split cs of [] \<Rightarrow> [[c]] | p # ps \<Rightarrow> (c # p) # ps))"

text \<open>\<^verbatim>\<open>strings.Join(parts, "/")\<close>.\<close>

fun Join_slash :: "string list \<Rightarrow> string" where
  "Join_slash [] = []"
| "Join_slash [p] = p"
| "Join_slash (p # q # ps) = p @ CHR ''/'' # Join_slash (q # ps)"

text \<open>
  One element of the loop of \<^verbatim>\<open>path.Clean\<close>. The output buffer is kept as the list
  of the elements written so far, last one first: an empty element and \<^verbatim>\<open>.\<close> are
  dropped, \<^verbatim>\<open>..\<close> removes the last real element when there is one
  (\<^verbatim>\<open>out.w > dotdot\<close>), is kept on a path that is not rooted and dropped on a
  rooted one.
\<close>

fun clean_elem :: "bool \<Rightarrow> string list \<Rightarrow> string \<Rightarrow> string list" where
  "clean_elem rooted out e =
     (if e = [] \<or> e = ''.'' then out
      else if e = ''..'' then
        (case out of
           [] \<Rightarrow> if rooted then [] else [e]
         | t # ts \<Rightarrow> if t \<noteq> ''..'' then ts else if rooted then out else e # out)
      else e # out)"

definition Clean :: "string \<Rightarrow> string" where
  "Clean p =
     (if p = [] then ''.''
      else
        let rooted = (hd p = CHR ''/'');
            out = Join_slash (rev (foldl (clean_elem rooted) [] (Split p)))
        in if rooted then CHR ''/'' # out else if out = [] then ''.'' else out)"

text \<open>\<^verbatim>\<open>path.Split\<close> keeps everything up to and including the last slash as the directory.\<close>

definition dir_part :: "string \<Rightarrow> string" where
  "dir_part p = rev (dropWhile (\<lambda>c. c \<noteq> CHR ''/'') (rev p))"

definition Dir :: "string \<Rightarrow> string" where
  "Dir p = Clean (dir_part p)"

text \<open>\<^verbatim>\<open>path.Join(a, b)\<close>: empty elements are ignored, the result is cleaned.\<close>

definition Join :: "string \<Rightarrow> string \<Rightarrow> string" where
  "Join a b =
     (if a = [] \<and> b = [] then []
      else if a = [] then Clean b
      else Clean (a @ CHR ''/'' # b))"

section \<open>The SQL LIKE operator\<close>

text \<open>
  The queries filter with \<^verbatim>\<open>remote LIKE ?\<close>. SQLite's \<^verbatim>\<open>patternCompare\<close>
  reads the pattern and the column value character by character with
  \<^verbatim>\<open>sqlite3Utf8Read\<close>: a byte below \<^verbatim>\<open>0xC0\<close> is a character by itself; a byte
  from \<^verbatim>\<open>0xC0\<close> on starts a character that takes the low bits the table
  \<^verbatim>\<open>sqlite3Utf8Trans1\<close> keeps of it and six bits of each continuation byte
  (\<^verbatim>\<open>0x80\<close> to \<^verbatim>\<open>0xBF\<close>) that follows, in 32-bit arithmetic, and that reads as
  \<^verbatim>\<open>0xFFFD\<close> when the value is below \<^verbatim>\<open>0x80\<close>, a surrogate, \<^verbatim>\<open>0xFFFE\<close> or
  \<^verbatim>\<open>0xFFFF\<close>. The text is taken to hold no NUL byte, at which the C string ends,
  and the pattern to stay within the 50000 bytes SQLite allows.
\<close>

definition is_cont :: "char \<Rightarrow> bool" where
  "is_cont b = (128 \<le> (of_char b :: int) \<and> (of_char b :: int) < 192)"

definition lead_bits :: "int \<Rightarrow> int" where
  "lead_bits n =
     (if n < 224 then n mod 32
      else if n < 240 then n mod 16
      else if n < 248 then n mod 8
      else if n < 252 then n mod 4
      else if n < 254 then n mod 2
      else 0)"

definition fix_cp :: "int \<Rightarrow> int" where
  "fix_cp c =
     (if c < 128 \<or> (55296 \<le> c \<and> c \<le> 57343) \<or> c = 65534 \<or> c = 65535 then 65533 else c)"

text \<open>
  The characters of a text. The first argument is the value of the character being read,
  if one has been started.
\<close>

fun utf8_chars :: "int option \<Rightarrow> string \<Rightarrow> int list" where
  "utf8_chars None [] = []"
| "utf8_chars (Some c) [] = [fix_cp c]"
| "utf8_chars None (b # bs) =
     (if (of_char b :: int) < 192 then of_char b # utf8_chars None bs
      else utf8_chars (Some (lead_bits (of_char b))) bs)"
| "utf8_chars (Some c) (b # bs) =
     (if is_cont b then utf8_chars (Some ((c * 64 + of_char b mod 64) mod 4294967296)) bs
      else fix_cp c #
             (if (of_char b :: int) < 192 then of_char b # utf8_chars None bs
              else utf8_chars (Some (lead_bits (of_char b))) bs))"

text \<open>
  The operator matches the whole value against the pattern: \<^verbatim>\<open>%\<close> (37) stands for
  any run of characters, \<^verbatim>\<open>_\<close> (95) for any single one, and two characters below
  \<^verbatim>\<open>0x80\<close> are compared through \<^verbatim>\<open>sqlite3Tolower\<close>, which folds the ASCII
  capitals.
\<close>

definition to_lower :: "int \<Rightarrow> int" where
  "to_lower c = (if 65 \<le> c \<and> c \<le> 90 then c + 32 else c)"

fun like_chars :: "int list \<Rightarrow> int list \<Rightarrow> bool" where
  "like_chars [] s = (s = [])"
| "like_chars (p # ps) [] = (p = 37 \<and> like_chars ps [])"
| "like_chars (p # ps) (c # cs) =
     (if p = 37 then like_chars ps (c # cs) \<or> like_chars (p # ps) cs
      else (p = c \<or> p = 95 \<or> (p < 128 \<and> c < 128 \<and> to_lower p = to_lower c))
           \<and> like_chars ps cs)"

definition like :: "string \<Rightarrow> string \<Rightarrow> bool" where
  "like pat v = like_chars (utf8_chars None pat) (utf8_chars None v)"

section \<open>Data model\<close>

type_synonym byte = "8 word"

text \<open>
  A \<^verbatim>\<open>time.Time\<close> is an instant (whole seconds since the epoch and the
  nanoseconds within the second) in a location, of which the offset east of UTC at that
  instant is kept, in seconds. \<^verbatim>\<open>Equal\<close> compares instants and ignores the
  location. \<open>Time\<close> is a time in UTC.
\<close>

datatype time = TimeIn (unix_sec: int) (nsec: nat) (zone: int)

abbreviation Time :: "int \<Rightarrow> nat \<Rightarrow> time" where
  "Time n f \<equiv> TimeIn n f 0"

definition Equal :: "time \<Rightarrow> time \<Rightarrow> bool" where
  "Equal t u = (unix_sec t = unix_sec u \<and> nsec t = nsec u)"

text \<open>
  The column \<^verbatim>\<open>mod_time\<close> holds the text produced by
  \<^verbatim>\<open>t.Format(time.RFC3339)\<close>, layout \<^verbatim>\<open>2006-01-02T15:04:05Z07:00\<close>: the
  wall clock of the location to the second, without the fraction, and the offset in hours
  and minutes (\<^verbatim>\<open>offset / 60\<close>, rounded towards zero). The text is represented by
  these two numbers, the wall clock as the seconds it would be in UTC.
\<close>

datatype rfc3339 = RFC3339 (wall: int) (offset_minutes: int)

definition minutes :: "int \<Rightarrow> int" where
  "minutes z = (if 0 \<le> z then z div 60 else - ((- z) div 60))"

definition Format :: "time \<Rightarrow> rfc3339" where
  "Format t = RFC3339 (unix_sec t + zone t) (minutes (zone t))"

text \<open>
  \<^verbatim>\<open>time.Parse(time.RFC3339, text)\<close> reads the wall clock at the printed offset. The
  layout has four digits for the year: the text of a wall clock before the year 0 or
  after the year 9999 is not read back, and the backend, which drops the error of
  \<^verbatim>\<open>time.Parse\<close>, is left with the zero \<^verbatim>\<open>time.Time\<close>, the first second of
  the year 1 in UTC. (The offset is below a day, as the offsets of all locations are.)
\<close>

definition year_0 :: int where
  "year_0 = - 62167219200"

definition year_10000 :: int where
  "year_10000 = 253402300800"

definition zero_Time :: time where
  "zero_Time = Time (- 62135596800) 0"

fun Parse :: "rfc3339 \<Rightarrow> time" where
  "Parse (RFC3339 w m) =
     (if year_0 \<le> w \<and> w < year_10000 then TimeIn (w - 60 * m) 0 (60 * m) else zero_Time)"

text \<open>A row of the table \<^verbatim>\<open>files\<close>; \<^verbatim>\<open>remote\<close> is the primary key.\<close>

record row =
  c_remote :: string
  c_size :: int
  c_mod_time :: rfc3339
  c_has_hash :: bool
  c_hash :: string
  c_deleted :: bool
  c_is_dir :: bool

text \<open>The struct \<^verbatim>\<open>Object\<close> (its \<^verbatim>\<open>fs\<close> pointer is the one file system of the state).\<close>

record Object =
  remote :: string
  osize :: int
  modTime :: time
  hasHash :: bool
  hash :: string
  deleted :: bool
  isDir :: bool

datatype DirEntry = NewDir string time | Obj Object

text \<open>
  What the backend reads of the source object \<^verbatim>\<open>src fs.ObjectInfo\<close>:
  \<^verbatim>\<open>src.Remote()\<close>, \<^verbatim>\<open>src.Size()\<close>, \<^verbatim>\<open>src.ModTime(ctx)\<close>, whether
  \<^verbatim>\<open>src.Fs().Hashes()\<close> contains MD5, and the two results of
  \<^verbatim>\<open>src.Hash(ctx, hash.MD5)\<close>.
\<close>

record ObjectInfo =
  src_Remote :: string
  src_Size :: int
  src_ModTime :: time
  src_MD5 :: bool
  src_Hash :: string
  src_Hash_err :: bool

text \<open>
  The reader \<^verbatim>\<open>in\<close> as \<^verbatim>\<open>io.Copy\<close> sees it: the bytes that reach the output file,
  and whether the copy then stops with an error.
\<close>

record reader =
  rd_bytes :: "byte list"
  rd_err :: bool

datatype errno = ENOENT | ENOTEMPTY | ENOTDIR | EISDIR | EINVAL | EBUSY | ENAMETOOLONG

datatype error =
    ErrorObjectNotFound
  | ErrorDirNotFound
  | DirectoryNotEmpty
  | StoreError
  | PathError errno
  | CopyError
  | Wrapped string error

datatype node = File "byte list" | Directory

text \<open>
  The state the backend works on: the configured root directory, the table, the content
  file system under the paths the backend passes to \<^verbatim>\<open>os\<close> (each one the result of
  \<^verbatim>\<open>path.Join\<close> or \<^verbatim>\<open>path.Dir\<close>, so already clean), and for each coming call
  into \<^verbatim>\<open>database/sql\<close> whether it will fail (none listed: it succeeds). The
  file \<^verbatim>\<open>virtualfs.db\<close> that holds the table lies in the root directory and is a
  file of the tree like any other.
\<close>

record vfs =
  RootDirectory :: string
  rows :: "row list"
  faults :: "bool list"
  tree :: "(string \<times> node) list"

section \<open>The database and the operating system\<close>

definition db_call :: "vfs \<Rightarrow> bool \<times> vfs" where
  "db_call s = (case faults s of [] \<Rightarrow> (False, s) | b # bs \<Rightarrow> (b, s\<lparr>faults := bs\<rparr>))"

definition select_remote :: "string \<Rightarrow> row list \<Rightarrow> row option" where
  "select_remote p rs = find (\<lambda>r. c_remote r = p) rs"

definition insert_or_ignore :: "row \<Rightarrow> row list \<Rightarrow> row list" where
  "insert_or_ignore r rs = (case select_remote (c_remote r) rs of None \<Rightarrow> rs @ [r] | Some x \<Rightarrow> rs)"

definition insert_or_replace :: "row \<Rightarrow> row list \<Rightarrow> row list" where
  "insert_or_replace r rs = filter (\<lambda>x. c_remote x \<noteq> c_remote r) rs @ [r]"

definition update_where_remote :: "string \<Rightarrow> (row \<Rightarrow> row) \<Rightarrow> row list \<Rightarrow> row list" where
  "update_where_remote p f rs = map (\<lambda>r. if c_remote r = p then f r else r) rs"

text \<open>
  The file system, as a Linux host presents it. The directories \<^verbatim>\<open>.\<close> and
  \<^verbatim>\<open>/\<close> and those above the working directory (\<^verbatim>\<open>..\<close>, \<^verbatim>\<open>../..\<close>)
  always exist. Go refuses a path with a NUL byte (\<^verbatim>\<open>EINVAL\<close>) and the system a
  path of more than 4095 bytes (\<^verbatim>\<open>ENAMETOOLONG\<close>). The system reaches a path through
  the directories on the way to it, from the top down: a name of more than 255 bytes
  stops it with \<^verbatim>\<open>ENAMETOOLONG\<close>, a directory that is missing with
  \<^verbatim>\<open>ENOENT\<close>, a file among them with \<^verbatim>\<open>ENOTDIR\<close>. A directory is removed only
  when nothing lies directly under it; a file is created only inside an existing
  directory; \<^verbatim>\<open>os.MkdirAll\<close> creates the missing directories from the top down and
  fails on a file in the way. Failures of the device itself (permissions, a full disk)
  other than the reader's own are not part of the model.
\<close>

definition exists_dir :: "(string \<times> node) list \<Rightarrow> string \<Rightarrow> bool" where
  "exists_dir t p =
     (p = ''.'' \<or> p = ''/'' \<or> list_all (\<lambda>e. e = ''..'') (Split p)
      \<or> map_of t p = Some Directory)"

definition has_children :: "(string \<times> node) list \<Rightarrow> string \<Rightarrow> bool" where
  "has_children t p = list_ex (\<lambda>e. fst e \<noteq> p \<and> Dir (fst e) = p) t"

definition refused :: "string \<Rightarrow> errno option" where
  "refused p =
     (if CHR 0x00 \<in> set p then Some EINVAL
      else if 4095 < length p then Some ENAMETOOLONG
      else None)"

definition name_too_long :: "string \<Rightarrow> bool" where
  "name_too_long p = (255 < length (last (Split p)))"

text \<open>The path and the directories on the way to it, from the top down.\<close>

definition ancestors :: "string \<Rightarrow> string list" where
  "ancestors p =
     (let names = filter (\<lambda>e. e \<noteq> []) (Split p);
          root = (if p \<noteq> [] \<and> hd p = CHR ''/'' then ''/'' else [])
      in map (\<lambda>k. root @ Join_slash (take k names)) [1 ..< Suc (length names)])"

fun walk :: "(string \<times> node) list \<Rightarrow> string list \<Rightarrow> errno option" where
  "walk t [] = None"
| "walk t (q # qs) =
     (if name_too_long q then Some ENAMETOOLONG
      else if exists_dir t q then walk t qs
      else case map_of t q of Some (File bs) \<Rightarrow> Some ENOTDIR | _ \<Rightarrow> Some ENOENT)"

text \<open>
  \<^verbatim>\<open>os.Remove\<close> tries \<^verbatim>\<open>unlink\<close>, then \<^verbatim>\<open>rmdir\<close>, and reports the error of
  \<^verbatim>\<open>rmdir\<close> unless that is \<^verbatim>\<open>ENOTDIR\<close>.
\<close>

definition os_Remove :: "(string \<times> node) list \<Rightarrow> string \<Rightarrow> errno + (string \<times> node) list" where
  "os_Remove t p =
     (case refused p of
        Some e \<Rightarrow> Inl e
      | None \<Rightarrow>
          if p = ''.'' then Inl EINVAL
          else if p = ''/'' then Inl EBUSY
          else if list_all (\<lambda>e. e = ''..'') (Split p) then Inl ENOTEMPTY
          else case walk t (butlast (ancestors p)) of
            Some e \<Rightarrow> Inl e
          | None \<Rightarrow>
              if name_too_long p then Inl ENAMETOOLONG
              else
                (case map_of t p of
                   None \<Rightarrow> Inl ENOENT
                 | Some (File bs) \<Rightarrow> Inr (AList.delete p t)
                 | Some Directory \<Rightarrow>
                     if has_children t p then Inl ENOTEMPTY else Inr (AList.delete p t)))"

text \<open>\<^verbatim>\<open>os.Create\<close> opens the file for writing, makes it if need be and empties it.\<close>

definition os_Create :: "(string \<times> node) list \<Rightarrow> string \<Rightarrow> errno + (string \<times> node) list" where
  "os_Create t p =
     (case refused p of
        Some e \<Rightarrow> Inl e
      | None \<Rightarrow>
          if p = [] then Inl ENOENT
          else case walk t (butlast (ancestors p)) of
            Some e \<Rightarrow> Inl e
          | None \<Rightarrow>
              if exists_dir t p then Inl EISDIR
              else if name_too_long p then Inl ENAMETOOLONG
              else Inr (AList.update p (File []) t))"

fun mkdir_each :: "(string \<times> node) list \<Rightarrow> string list \<Rightarrow> errno + (string \<times> node) list" where
  "mkdir_each t [] = Inr t"
| "mkdir_each t (q # qs) =
     (if exists_dir t q then mkdir_each t qs
      else if name_too_long q then Inl ENAMETOOLONG
      else case map_of t q of
        Some (File bs) \<Rightarrow> Inl ENOTDIR
      | _ \<Rightarrow> mkdir_each (AList.update q Directory t) qs)"

definition os_MkdirAll :: "(string \<times> node) list \<Rightarrow> string \<Rightarrow> errno + (string \<times> node) list" where
  "os_MkdirAll t p =
     (case refused p of Some e \<Rightarrow> Inl e | None \<Rightarrow> mkdir_each t (ancestors p))"

text \<open>\<^verbatim>\<open>io.Copy\<close> into the file just created: the bytes that arrived are in the file.\<close>

definition write_file :: "(string \<times> node) list \<Rightarrow> string \<Rightarrow> byte list \<Rightarrow> (string \<times> node) list" where
  "write_file t p bs = AList.update p (File bs) t"

section \<open>The backend of \<^verbatim>\<open>src/unnamed/part_000\<close>\<close>

definition fullPath :: "vfs \<Rightarrow> string \<Rightarrow> string" where
  "fullPath s p = Join (RootDirectory s) p"

text \<open>\<^verbatim>\<open>rows.Scan\<close> into an \<^verbatim>\<open>Object\<close>, the modification time parsed back.\<close>

definition scan :: "row \<Rightarrow> Object" where
  "scan r =
     \<lparr>remote = c_remote r, osize = c_size r, modTime = Parse (c_mod_time r),
      hasHash = c_has_hash r, hash = c_hash r, deleted = c_deleted r, isDir = c_is_dir r\<rparr>"

definition Size :: "Object \<Rightarrow> int" where
  "Size o1 = (if deleted o1 then 0 else osize o1)"

definition Remote :: "Object \<Rightarrow> string" where
  "Remote o1 = (if deleted o1 then remote o1 @ ''.delete'' else remote o1)"

definition dir_row :: "string \<Rightarrow> time \<Rightarrow> row" where
  "dir_row p now =
     \<lparr>c_remote = p, c_size = 0, c_mod_time = Format now, c_has_hash = False, c_hash = [],
      c_deleted = False, c_is_dir = True\<rparr>"

text \<open>
  The loop of \<^verbatim>\<open>ensureDirectoryStructure\<close>. Its statements run in the transaction:
  the rows they build are those of the transaction until the commit. The clock is read
  once for the call (\<open>now\<close>); the source reads it at every statement.
\<close>

fun insert_dirs ::
  "time \<Rightarrow> string list \<Rightarrow> string \<Rightarrow> row list \<Rightarrow> vfs \<Rightarrow> (error + row list) \<times> vfs" where
  "insert_dirs now [] currentPath rs s = (Inr rs, s)"
| "insert_dirs now (part # parts) currentPath rs s =
     (if part = [] then insert_dirs now parts currentPath rs s
      else
        let currentPath' = Join currentPath part;
            (bad, s1) = db_call s
        in if bad
           then (Inl (Wrapped (''failed to insert directory '' @ currentPath') StoreError), s1)
           else insert_dirs now parts currentPath'
                  (insert_or_ignore (dir_row currentPath' now) rs) s1)"

text \<open>
  \<^verbatim>\<open>Begin\<close>, the loop, \<^verbatim>\<open>Commit\<close>. The deferred \<^verbatim>\<open>Rollback\<close> discards the
  transaction's rows on every return before the commit.
\<close>

definition ensureDirectoryStructure :: "time \<Rightarrow> string \<Rightarrow> vfs \<Rightarrow> (error + unit) \<times> vfs" where
  "ensureDirectoryStructure now p s =
     (let parts = Split (Dir p);
          (bad, s1) = db_call s
      in if bad then (Inl (Wrapped ''failed to begin transaction'' StoreError), s1)
         else case insert_dirs now parts [] (rows s1) s1 of
           (Inl e, s2) \<Rightarrow> (Inl e, s2)
         | (Inr rs, s2) \<Rightarrow>
             let (bad2, s3) = db_call s2
             in if bad2 then (Inl (Wrapped ''failed to commit transaction'' StoreError), s3)
                else (Inr (), s3\<lparr>rows := rs\<rparr>))"

fun list_entries :: "string \<Rightarrow> row list \<Rightarrow> DirEntry list" where
  "list_entries dir [] = []"
| "list_entries dir (r # rs) =
     (let o1 = scan r
      in if dir = [] \<or> Dir (remote o1) = dir
         then (if isDir o1 then NewDir (remote o1) (modTime o1) else Obj o1) # list_entries dir rs
         else list_entries dir rs)"

definition List :: "string \<Rightarrow> vfs \<Rightarrow> (error + DirEntry list) \<times> vfs" where
  "List dir s =
     (let (bad, s1) = db_call s
      in if bad then (Inl StoreError, s1)
         else
           let selected =
                 (if dir = []
                  then filter (\<lambda>r. \<not> like ''%/%'' (c_remote r) \<and> \<not> c_deleted r) (rows s1)
                  else filter (\<lambda>r. like (dir @ ''/%'') (c_remote r) \<and> \<not> c_deleted r) (rows s1))
           in (Inr (list_entries dir selected), s1))"

definition NewObject :: "string \<Rightarrow> vfs \<Rightarrow> (error + Object) \<times> vfs" where
  "NewObject p s =
     (let (bad, s1) = db_call s
      in if bad then (Inl StoreError, s1)
         else case select_remote p (rows s1) of
           None \<Rightarrow> (Inl ErrorObjectNotFound, s1)
         | Some r \<Rightarrow>
             if c_deleted r \<or> c_is_dir r then (Inl ErrorObjectNotFound, s1)
             else (Inr ((scan r)\<lparr>remote := p\<rparr>), s1))"

text \<open>
  \<^verbatim>\<open>Put\<close> from the call of \<^verbatim>\<open>fullPath\<close> on: the directory rows, the directories of
  the content tree, the file, the copy with the digest of the bytes read computed on the
  way (\<^verbatim>\<open>io.TeeReader\<close> into the MD5 hasher \<open>md5\<close>, which
  \<^verbatim>\<open>hash.NewMultiHasherTypes\<close> never fails to make for this one type), and the row.
\<close>

definition Put_write ::
  "(byte list \<Rightarrow> string) \<Rightarrow> time \<Rightarrow> reader \<Rightarrow> ObjectInfo \<Rightarrow> vfs \<Rightarrow> (error + Object) \<times> vfs" where
  "Put_write md5 now inp src s =
     (let p = src_Remote src;
          filePath = fullPath s p
      in case ensureDirectoryStructure now p s of
        (Inl e, s1) \<Rightarrow> (Inl (Wrapped ''failed to ensure directory structure'' e), s1)
      | (Inr u, s1) \<Rightarrow>
          (case os_MkdirAll (tree s1) (Dir filePath) of
             Inl e \<Rightarrow> (Inl (PathError e), s1)
           | Inr t2 \<Rightarrow>
               (case os_Create t2 filePath of
                  Inl e \<Rightarrow> (Inl (PathError e), s1\<lparr>tree := t2\<rparr>)
                | Inr t3 \<Rightarrow>
                    let s3 = s1\<lparr>tree := write_file t3 filePath (rd_bytes inp)\<rparr>
                    in if rd_err inp then (Inl CopyError, s3)
                       else
                         let size = int (length (rd_bytes inp));
                             hashSum = md5 (rd_bytes inp);
                             hasHash = (hashSum \<noteq> []);
                             (bad, s4) = db_call s3
                         in if bad then (Inl StoreError, s4)
                            else
                              (Inr \<lparr>remote = p, osize = size, modTime = src_ModTime src,
                                    hasHash = hasHash, hash = hashSum, deleted = False,
                                    isDir = False\<rparr>,
                               s4\<lparr>rows :=
                                    insert_or_replace
                                      \<lparr>c_remote = p, c_size = size,
                                       c_mod_time = Format (src_ModTime src),
                                       c_has_hash = hasHash, c_hash = hashSum,
                                       c_deleted = False, c_is_dir = False\<rparr>
                                      (rows s4)\<rparr>))))"

text \<open>\<^verbatim>\<open>f.Hashes()\<close> is the set holding MD5, so MD5 is shared when the source has it.\<close>

definition Put ::
  "(byte list \<Rightarrow> string) \<Rightarrow> time \<Rightarrow> reader \<Rightarrow> ObjectInfo \<Rightarrow> vfs \<Rightarrow> (error + Object) \<times> vfs" where
  "Put md5 now inp src s =
     (case NewObject (src_Remote src) s of
        (Inl e, s0) \<Rightarrow>
          if e \<noteq> ErrorObjectNotFound then (Inl e, s0) else Put_write md5 now inp src s0
      | (Inr existingObj, s0) \<Rightarrow>
          let shouldUpdate =
                (if src_Size src \<noteq> Size existingObj then True
                 else if \<not> Equal (src_ModTime src) (modTime existingObj) then True
                 else if src_MD5 src then src_Hash src \<noteq> hash existingObj
                 else False)
          in if \<not> shouldUpdate then (Inr existingObj, s0) else Put_write md5 now inp src s0)"

definition Mkdir :: "time \<Rightarrow> string \<Rightarrow> vfs \<Rightarrow> (error + unit) \<times> vfs" where
  "Mkdir now dir s =
     (case os_MkdirAll (tree s) (fullPath s dir) of
        Inl e \<Rightarrow> (Inl (PathError e), s)
      | Inr t1 \<Rightarrow> ensureDirectoryStructure now dir (s\<lparr>tree := t1\<rparr>))"

definition Rmdir :: "string \<Rightarrow> vfs \<Rightarrow> (error + unit) \<times> vfs" where
  "Rmdir dir s =
     (case os_Remove (tree s) (fullPath s dir) of
        Inl e \<Rightarrow> if e = ENOENT then (Inl ErrorDirNotFound, s) else (Inl (PathError e), s)
      | Inr t1 \<Rightarrow>
          let (bad, s2) = db_call (s\<lparr>tree := t1\<rparr>)
          in if bad then (Inl StoreError, s2)
             else
               let count =
                     length (filter (\<lambda>r. like (dir @ ''/%'') (c_remote r) \<and> c_remote r \<noteq> dir
                                          \<and> \<not> c_deleted r) (rows s2))
               in if count > 0 then (Inl DirectoryNotEmpty, s2)
                  else
                    let (bad3, s3) = db_call s2
                    in if bad3 then (Inl StoreError, s3)
                       else (Inr (),
                             s3\<lparr>rows := filter (\<lambda>r. \<not> (c_remote r = dir \<and> c_is_dir r)) (rows s3)\<rparr>))"

text \<open>
  \<^verbatim>\<open>Object.Remove\<close>. The receiver is a pointer: the object it leaves behind is
  returned with the state.
\<close>

definition Remove :: "time \<Rightarrow> Object \<Rightarrow> vfs \<Rightarrow> (error + Object) \<times> vfs" where
  "Remove now o1 s =
     (case (case os_Remove (tree s) (fullPath s (remote o1)) of
              Inl e \<Rightarrow> if e = ENOENT then Inr (tree s) else Inl e
            | Inr t \<Rightarrow> Inr t) of
        Inl e \<Rightarrow> (Inl (PathError e), s)
      | Inr t1 \<Rightarrow>
          (case os_Create t1 (fullPath s (remote o1 @ ''.delete'')) of
             Inl e \<Rightarrow>
               (Inl (Wrapped ''failed to create delete placeholder'' (PathError e)), s\<lparr>tree := t1\<rparr>)
           | Inr t2 \<Rightarrow>
               let (bad, s3) = db_call (s\<lparr>tree := t2\<rparr>)
               in if bad then (Inl StoreError, s3)
                  else
                    (Inr (o1\<lparr>deleted := True\<rparr>),
                     s3\<lparr>rows :=
                          update_where_remote (remote o1)
                            (\<lambda>r. r\<lparr>c_deleted := True, c_mod_time := Format now\<rparr>) (rows s3)\<rparr>)))"

definition SetModTime :: "time \<Rightarrow> Object \<Rightarrow> vfs \<Rightarrow> (error + Object) \<times> vfs" where
  "SetModTime t o1 s =
     (let (bad, s1) = db_call s
      in if bad then (Inl StoreError, s1)
         else
           (Inr (o1\<lparr>modTime := t\<rparr>),
            s1\<lparr>rows := update_where_remote (remote o1) (\<lambda>r. r\<lparr>c_mod_time := Format t\<rparr>) (rows s1)\<rparr>))"

text \<open>\<^verbatim>\<open>Object.Update\<close>, the decision first, then the same write as in \<^verbatim>\<open>Put\<close>
  without the directory rows and with an \<^verbatim>\<open>UPDATE\<close> of the row.\<close>

definition Update ::
  "(byte list \<Rightarrow> string) \<Rightarrow> reader \<Rightarrow> ObjectInfo \<Rightarrow> Object \<Rightarrow> vfs \<Rightarrow> (error + Object) \<times> vfs" where
  "Update md5 inp src o1 s =
     (let shouldUpdate =
            (if osize o1 = src_Size src
             then (if \<not> src_MD5 src \<or> src_Hash src = hash o1
                   then (if \<not> Equal (src_ModTime src) (modTime o1) then False else True)
                   else True)
             else True)
      in if \<not> shouldUpdate then (Inr o1, s)
         else
           let filePath = fullPath s (remote o1)
           in case os_MkdirAll (tree s) (Dir filePath) of
             Inl e \<Rightarrow> (Inl (PathError e), s)
           | Inr t1 \<Rightarrow>
               (case os_Create t1 filePath of
                  Inl e \<Rightarrow> (Inl (PathError e), s\<lparr>tree := t1\<rparr>)
                | Inr t2 \<Rightarrow>
                    let s2 = s\<lparr>tree := write_file t2 filePath (rd_bytes inp)\<rparr>
                    in if rd_err inp then (Inl CopyError, s2)
                       else
                         let size = int (length (rd_bytes inp));
                             hashSum = md5 (rd_bytes inp);
                             hasHash = (hashSum \<noteq> []);
                             (bad, s3) = db_call s2
                         in if bad then (Inl StoreError, s3)
                            else
                              (Inr (o1\<lparr>osize := size, modTime := src_ModTime src,
                                       hasHash := hasHash, hash := hashSum, deleted := False,
                                       isDir := False\<rparr>),
                               s3\<lparr>rows :=
                                    update_where_remote (remote o1)
                                      (\<lambda>r. r\<lparr>c_size := size,
                                              c_mod_time := Format (src_ModTime src),
                                              c_has_hash := hasHash, c_hash := hashSum,
                                              c_deleted := False, c_is_dir := False\<rparr>)
                                      (rows s3)\<rparr>)))"

section \<open>The backend of \<^verbatim>\<open>src/backend/virtualfs/virtualfs.go\<close>\<close>

text \<open>
  The second file declares the same package. \<^verbatim>\<open>NewObject\<close>, \<^verbatim>\<open>SetModTime\<close>
  and the accessors of \<^verbatim>\<open>Object\<close> read the same in both files (the lock and the log
  level apart); the functions that differ are given here under the suffix \<open>_b\<close>. The
  file builds its paths with \<^verbatim>\<open>filepath\<close>.
\<close>

text \<open>No transaction: every \<^verbatim>\<open>INSERT OR IGNORE\<close> goes to the table as it runs.\<close>

fun insert_dirs_b :: "time \<Rightarrow> string list \<Rightarrow> string \<Rightarrow> vfs \<Rightarrow> (error + unit) \<times> vfs" where
  "insert_dirs_b now [] currentPath s = (Inr (), s)"
| "insert_dirs_b now (part # parts) currentPath s =
     (if part = [] then insert_dirs_b now parts currentPath s
      else
        let currentPath' = Join currentPath part;
            (bad, s1) = db_call s
        in if bad
           then (Inl (Wrapped (''failed to insert directory '' @ currentPath') StoreError), s1)
           else insert_dirs_b now parts currentPath'
                  (s1\<lparr>rows := insert_or_ignore (dir_row currentPath' now) (rows s1)\<rparr>))"

definition ensureDirectoryStructure_b :: "time \<Rightarrow> string \<Rightarrow> vfs \<Rightarrow> (error + unit) \<times> vfs" where
  "ensureDirectoryStructure_b now p s = insert_dirs_b now (Split (Dir p)) [] s"

definition Mkdir_b :: "time \<Rightarrow> string \<Rightarrow> vfs \<Rightarrow> (error + unit) \<times> vfs" where
  "Mkdir_b now dir s =
     (case os_MkdirAll (tree s) (fullPath s dir) of
        Inl e \<Rightarrow> (Inl (PathError e), s)
      | Inr t1 \<Rightarrow> ensureDirectoryStructure_b now dir (s\<lparr>tree := t1\<rparr>))"

definition List_b :: "string \<Rightarrow> vfs \<Rightarrow> (error + DirEntry list) \<times> vfs" where
  "List_b dir s =
     (let (bad, s1) = db_call s
      in if bad then (Inl StoreError, s1)
         else
           let selected =
                 (if dir = []
                  then filter (\<lambda>r. \<not> like ''%/%'' (c_remote r) \<and> \<not> c_deleted r) (rows s1)
                  else filter (\<lambda>r. like (Join dir ''%'') (c_remote r) \<and> \<not> c_deleted r) (rows s1))
           in (Inr (list_entries dir selected), s1))"

text \<open>\<^verbatim>\<open>Put\<close> writes without looking the object up, and stores the hash the source reports.\<close>

definition Put_b :: "time \<Rightarrow> reader \<Rightarrow> ObjectInfo \<Rightarrow> vfs \<Rightarrow> (error + Object) \<times> vfs" where
  "Put_b now inp src s =
     (let p = src_Remote src;
          filePath = fullPath s p
      in case ensureDirectoryStructure_b now p s of
        (Inl e, s1) \<Rightarrow> (Inl (Wrapped ''failed to ensure directory structure'' e), s1)
      | (Inr u, s1) \<Rightarrow>
          (case os_MkdirAll (tree s1) (Dir filePath) of
             Inl e \<Rightarrow> (Inl (PathError e), s1)
           | Inr t2 \<Rightarrow>
               (case os_Create t2 filePath of
                  Inl e \<Rightarrow> (Inl (PathError e), s1\<lparr>tree := t2\<rparr>)
                | Inr t3 \<Rightarrow>
                    let s3 = s1\<lparr>tree := write_file t3 filePath (rd_bytes inp)\<rparr>
                    in if rd_err inp then (Inl CopyError, s3)
                       else
                         let size = int (length (rd_bytes inp));
                             hashSum =
                               (if \<not> src_Hash_err src \<and> src_Hash src \<noteq> [] then src_Hash src
                                else []);
                             (bad, s4) = db_call s3
                         in if bad then (Inl StoreError, s4)
                            else
                              (Inr \<lparr>remote = p, osize = size, modTime = src_ModTime src,
                                    hasHash = (hashSum \<noteq> []), hash = hashSum, deleted = False,
                                    isDir = False\<rparr>,
                               s4\<lparr>rows :=
                                    insert_or_replace
                                      \<lparr>c_remote = p, c_size = size,
                                       c_mod_time = Format (src_ModTime src),
                                       c_has_hash = (hashSum \<noteq> []), c_hash = hashSum,
                                       c_deleted = False, c_is_dir = False\<rparr>
                                      (rows s4)\<rparr>))))"

definition Rmdir_b :: "string \<Rightarrow> vfs \<Rightarrow> (error + unit) \<times> vfs" where
  "Rmdir_b dir s =
     (case os_Remove (tree s) (fullPath s dir) of
        Inl e \<Rightarrow> if e = ENOENT then (Inl ErrorDirNotFound, s) else (Inl (PathError e), s)
      | Inr t1 \<Rightarrow>
          let (bad, s2) = db_call (s\<lparr>tree := t1\<rparr>)
          in if bad then (Inl StoreError, s2)
             else
               let count =
                     length (filter (\<lambda>r. like (Join dir ''%'') (c_remote r) \<and> c_remote r \<noteq> dir
                                          \<and> \<not> c_deleted r) (rows s2))
               in if count > 0 then (Inl DirectoryNotEmpty, s2)
                  else
                    let (bad3, s3) = db_call s2
                    in if bad3 then (Inl StoreError, s3)
                       else (Inr (),
                             s3\<lparr>rows := filter (\<lambda>r. \<not> (c_remote r = dir \<and> c_is_dir r)) (rows s3)\<rparr>))"

text \<open>\<^verbatim>\<open>Remove\<close> makes the directory of the marker first and leaves the receiver as it is.\<close>

definition Remove_b :: "time \<Rightarrow> Object \<Rightarrow> vfs \<Rightarrow> (error + Object) \<times> vfs" where
  "Remove_b now o1 s =
     (case (case os_Remove (tree s) (fullPath s (remote o1)) of
              Inl e \<Rightarrow> if e = ENOENT then Inr (tree s) else Inl e
            | Inr t \<Rightarrow> Inr t) of
        Inl e \<Rightarrow> (Inl (PathError e), s)
      | Inr t1 \<Rightarrow>
          let deletePath = fullPath s (remote o1 @ ''.delete'')
          in case os_MkdirAll t1 (Dir deletePath) of
            Inl e \<Rightarrow> (Inl (PathError e), s\<lparr>tree := t1\<rparr>)
          | Inr t2 \<Rightarrow>
              (case os_Create t2 deletePath of
                 Inl e \<Rightarrow> (Inl (PathError e), s\<lparr>tree := t2\<rparr>)
               | Inr t3 \<Rightarrow>
                   let (bad, s3) = db_call (s\<lparr>tree := t3\<rparr>)
                   in if bad then (Inl StoreError, s3)
                      else
                        (Inr o1,
                         s3\<lparr>rows :=
                              update_where_remote (remote o1)
                                (\<lambda>r. r\<lparr>c_deleted := True, c_mod_time := Format now\<rparr>) (rows s3)\<rparr>)))"

text \<open>
  \<^verbatim>\<open>Update\<close> always writes. It sets a hasher up beside the copy, and then stores the
  hash the source reports.
\<close>

definition Update_b :: "reader \<Rightarrow> ObjectInfo \<Rightarrow> Object \<Rightarrow> vfs \<Rightarrow> (error + Object) \<times> vfs" where
  "Update_b inp src o1 s =
     (let filePath = fullPath s (remote o1)
      in case os_MkdirAll (tree s) (Dir filePath) of
        Inl e \<Rightarrow> (Inl (PathError e), s)
      | Inr t1 \<Rightarrow>
          (case os_Create t1 filePath of
             Inl e \<Rightarrow> (Inl (PathError e), s\<lparr>tree := t1\<rparr>)
           | Inr t2 \<Rightarrow>
               let s2 = s\<lparr>tree := write_file t2 filePath (rd_bytes inp)\<rparr>
               in if rd_err inp then (Inl CopyError, s2)
                  else
                    let size = int (length (rd_bytes inp));
                        hashSum = (if src_Hash_err src then [] else src_Hash src);
                        (bad, s3) = db_call s2
                    in if bad then (Inl StoreError, s3)
                       else
                         (Inr (o1\<lparr>osize := size, modTime := src_ModTime src,
                                  hasHash := (hashSum \<noteq> []), hash := hashSum, deleted := False,
                                  isDir := False\<rparr>),
                          s3\<lparr>rows :=
                               update_where_remote (remote o1)
                                 (\<lambda>r. r\<lparr>c_size := size,
                                         c_mod_time := Format (src_ModTime src),
                                         c_has_hash := (hashSum \<noteq> []), c_hash := hashSum,
                                         c_deleted := False, c_is_dir := False\<rparr>)
                                 (rows s3)\<rparr>)))"

section \<open>Notions used in the statements\<close>

text \<open>The table \<open>rs'\<close> is the table \<open>rs\<close> with directory rows added at its end, if any.\<close>

definition dir_rows_appended :: "row list \<Rightarrow> row list \<Rightarrow> bool" where
  "dir_rows_appended rs rs' =
     (take (length rs) rs' = rs \<and> list_all c_is_dir (drop (length rs) rs'))"

text \<open>
  A name is a path element that \<^verbatim>\<open>path.Clean\<close> keeps as it is. A canonical path is
  made of names joined by single slashes: the form in which the driver hands paths to
  the backend. The table also gets the path \<^verbatim>\<open>.\<close>, which
  \<^verbatim>\<open>ensureDirectoryStructure\<close> stores as the parent of a top-level path.
\<close>

definition is_name :: "string \<Rightarrow> bool" where
  "is_name e = (e \<noteq> [] \<and> e \<noteq> ''.'' \<and> e \<noteq> ''..'')"

definition canonical :: "string \<Rightarrow> bool" where
  "canonical p = list_all is_name (Split p)"

definition well_formed :: "string \<Rightarrow> bool" where
  "well_formed p = (p = ''.'' \<or> canonical p)"

text \<open>
  The elements \<^verbatim>\<open>path.Clean\<close> has written at any point of its loop, last one first:
  names, and under them the \<^verbatim>\<open>..\<close> elements a path that is not rooted keeps.
\<close>

definition okst :: "bool \<Rightarrow> string list \<Rightarrow> bool" where
  "okst r st = (\<exists>ns k. st = ns @ replicate k ''..'' \<and> list_all is_name ns
                  \<and> (\<forall>e \<in> set ns. CHR ''/'' \<notin> set e) \<and> (r \<longrightarrow> k = 0))"

text \<open>The entry \<^verbatim>\<open>List\<close> makes of a row: a directory entry or the scanned object.\<close>

definition entry_of :: "row \<Rightarrow> DirEntry" where
  "entry_of r =
     (if c_is_dir r then NewDir (c_remote r) (Parse (c_mod_time r)) else Obj (scan r))"

text \<open>
  The scope of a listing in the words of the specification: for the empty directory the
  paths without a separator, otherwise the paths prefixed by the directory and a slash
  whose immediate parent is the directory.
\<close>

definition one_level_under :: "string \<Rightarrow> string \<Rightarrow> bool" where
  "one_level_under dir p =
     (if dir = [] then CHR ''/'' \<notin> set p else prefix (dir @ ''/'') p \<and> Dir p = dir)"

definition listing :: "string \<Rightarrow> row list \<Rightarrow> DirEntry list" where
  "listing dir rs =
     map entry_of (filter (\<lambda>r. \<not> c_deleted r \<and> one_level_under dir (c_remote r)) rs)"

text \<open>
  A record that is not deleted lies strictly under the prefix of the directory; and the
  count of the query of \<^verbatim>\<open>Rmdir\<close> is positive: a live row other than the directory's
  matches the pattern, which is the directory followed by \<^verbatim>\<open>/%\<close> in
  \<^verbatim>\<open>part_000\<close> and \<^verbatim>\<open>filepath.Join(dir, "%")\<close> in \<^verbatim>\<open>virtualfs.go\<close>.
\<close>

definition live_under :: "string \<Rightarrow> row list \<Rightarrow> bool" where
  "live_under dir rs = list_ex (\<lambda>r. \<not> c_deleted r \<and> prefix (dir @ ''/'') (c_remote r)) rs"

definition live_match :: "string \<Rightarrow> row list \<Rightarrow> bool" where
  "live_match dir rs =
     list_ex (\<lambda>r. like (dir @ ''/%'') (c_remote r) \<and> c_remote r \<noteq> dir \<and> \<not> c_deleted r) rs"

definition live_match_b :: "string \<Rightarrow> row list \<Rightarrow> bool" where
  "live_match_b dir rs =
     list_ex (\<lambda>r. like (Join dir ''%'') (c_remote r) \<and> c_remote r \<noteq> dir \<and> \<not> c_deleted r) rs"

text \<open>
  \<^verbatim>\<open>NewFs\<close> makes the root directory and opens the database at
  \<^verbatim>\<open>path.Join(opt.RootDirectory, "virtualfs.db")\<close>; \<^verbatim>\<open>createTables\<close> then
  writes to it. A store that has been opened has this file in its content tree.
\<close>

definition db_file :: "vfs \<Rightarrow> string" where
  "db_file s = Join (RootDirectory s) ''virtualfs.db''"

definition opened :: "vfs \<Rightarrow> bool" where
  "opened s = (case map_of (tree s) (db_file s) of Some (File bs) \<Rightarrow> True | _ \<Rightarrow> False)"

text \<open>The row a successful write stores for a path, given the hash it found.\<close>

definition written_row :: "string \<Rightarrow> reader \<Rightarrow> ObjectInfo \<Rightarrow> string \<Rightarrow> row" where
  "written_row p inp src h =
     \<lparr>c_remote = p, c_size = int (length (rd_bytes inp)),
      c_mod_time = Format (src_ModTime src), c_has_hash = (h \<noteq> []), c_hash = h,
      c_deleted = False, c_is_dir = False\<rparr>"

text \<open>The hash \<^verbatim>\<open>Put\<close> of \<^verbatim>\<open>virtualfs.go\<close> takes from the source.\<close>

definition reported_hash :: "ObjectInfo \<Rightarrow> string" where
  "reported_hash src = (if \<not> src_Hash_err src \<and> src_Hash src \<noteq> [] then src_Hash src else [])"

text \<open>Every path stored in the table is well formed.\<close>

definition wf_rows :: "row list \<Rightarrow> bool" where
  "wf_rows rs = list_all (\<lambda>r. well_formed (c_remote r)) rs"

section \<open>Example states\<close>

text \<open>
  A stand-in for the MD5 hasher in the examples. The theorems hold for every function
  from the bytes to the digest text; the examples need one that can be evaluated.
\<close>

definition md5_ex :: "byte list \<Rightarrow> string" where
  "md5_ex bs = ''md5-'' @ map (\<lambda>b. char_of (unat b mod 26 + 97)) bs"

text \<open>The row of a live file with a hash.\<close>

definition file_row :: "string \<Rightarrow> int \<Rightarrow> int \<Rightarrow> string \<Rightarrow> row" where
  "file_row p n t h =
     \<lparr>c_remote = p, c_size = n, c_mod_time = RFC3339 t 0, c_has_hash = True, c_hash = h,
      c_deleted = False, c_is_dir = False\<rparr>"

text \<open>An example state with the database file in its root directory.\<close>

definition with_db :: "vfs \<Rightarrow> vfs" where
  "with_db s = s\<lparr>tree := tree s @ [(db_file s, File [])]\<rparr>"

text \<open>An empty table under an existing root.\<close>

definition s_fresh :: vfs where
  "s_fresh =
     \<lparr>RootDirectory = ''root'', rows = [], faults = [], tree = [(''root'', Directory)]\<rparr>"

text \<open>
  A directory \<^verbatim>\<open>d\<close> whose one file has been recorded and then taken away by the
  consumer: the row of the file is live, the directory in the content tree is empty.
\<close>

definition s_ingested :: vfs where
  "s_ingested =
     \<lparr>RootDirectory = ''root'',
      rows = [dir_row ''d'' (Time 1 0), file_row ''d/x.txt'' 3 100 ''h1''],
      faults = [],
      tree = [(''root'', Directory), (''root/d'', Directory)]\<rparr>"

text \<open>The same directory with the content still in place, and the object of the file.\<close>

definition s_live :: vfs where
  "s_live =
     \<lparr>RootDirectory = ''root'',
      rows = [dir_row ''d'' (Time 1 0), file_row ''d/x.txt'' 3 100 ''h1''],
      faults = [],
      tree = [(''root'', Directory), (''root/d'', Directory),
              (''root/d/x.txt'', File [1, 2, 3])]\<rparr>"

definition o_x :: Object where
  "o_x = scan (file_row ''d/x.txt'' 3 100 ''h1'')"

text \<open>The state after the file has been removed at time 200.\<close>

definition s_tombstoned :: vfs where
  "s_tombstoned =
     \<lparr>RootDirectory = ''root'',
      rows = [dir_row ''d'' (Time 1 0),
              (file_row ''d/x.txt'' 3 200 ''h1'')\<lparr>c_deleted := True\<rparr>],
      faults = [],
      tree = [(''root'', Directory), (''root/d'', Directory),
              (''root/d/x.txt.delete'', File [])]\<rparr>"

text \<open>A changed source for the file, and a reader that breaks after two bytes.\<close>

definition src_changed :: ObjectInfo where
  "src_changed =
     \<lparr>src_Remote = ''d/x.txt'', src_Size = 5, src_ModTime = Time 150 0, src_MD5 = True,
      src_Hash = ''h2'', src_Hash_err = False\<rparr>"

definition in_broken :: reader where
  "in_broken = \<lparr>rd_bytes = [7, 7], rd_err = True\<rparr>"

text \<open>The records \<^verbatim>\<open>a\<close>, \<^verbatim>\<open>a/b\<close>, \<^verbatim>\<open>a/b/c\<close>.\<close>

definition s_abc :: vfs where
  "s_abc =
     \<lparr>RootDirectory = ''root'',
      rows = [dir_row ''a'' (Time 1 0), dir_row ''a/b'' (Time 1 0),
              file_row ''a/b/c'' 3 100 ''h1''],
      faults = [],
      tree = [(''root'', Directory)]\<rparr>"

text \<open>A table with a path that is not canonical.\<close>

definition s_odd :: vfs where
  "s_odd =
     \<lparr>RootDirectory = ''root'',
      rows = [file_row ''ab/../a_/x'' 3 100 ''h1''],
      faults = [],
      tree = [(''root'', Directory)]\<rparr>"

text \<open>The directory \<^verbatim>\<open>d\<close> with a live record and no directory in the content tree.\<close>

definition s_gone :: vfs where
  "s_gone =
     \<lparr>RootDirectory = ''root'',
      rows = [dir_row ''d'' (Time 1 0), file_row ''d/x.txt'' 3 100 ''h1''],
      faults = [],
      tree = [(''root'', Directory)]\<rparr>"

text \<open>The directory \<^verbatim>\<open>d\<close> empty in the table and in the content tree.\<close>

definition s_empty_dir :: vfs where
  "s_empty_dir =
     \<lparr>RootDirectory = ''root'',
      rows = [dir_row ''d'' (Time 1 0)],
      faults = [],
      tree = [(''root'', Directory), (''root/d'', Directory)]\<rparr>"

text \<open>
  The directory \<^verbatim>\<open>d\<close> empty in the table and in the content tree, beside a
  directory \<^verbatim>\<open>D\<close> with a live record.
\<close>

definition s_capital :: vfs where
  "s_capital =
     \<lparr>RootDirectory = ''root'',
      rows = [dir_row ''d'' (Time 1 0), dir_row ''D'' (Time 1 0),
              file_row ''D/x.txt'' 3 100 ''h1''],
      faults = [],
      tree = [(''root'', Directory), (''root/d'', Directory), (''root/D'', Directory)]\<rparr>"

text \<open>
  The directory \<^verbatim>\<open>a_\<close>, empty, and a live record in a directory whose name is
  \<^verbatim>\<open>a\<close> and the two bytes of an accented letter.
\<close>

definition s_accent :: vfs where
  "s_accent =
     \<lparr>RootDirectory = ''root'',
      rows = [dir_row ''a_'' (Time 1 0),
              file_row [CHR ''a'', CHR 0xC3, CHR 0xA9, CHR ''/'', CHR ''x''] 3 100 ''h1''],
      faults = [],
      tree = [(''root'', Directory), (''root/a_'', Directory)]\<rparr>"

text \<open>A live record stored under a path that is not clean, and the directory it names.\<close>

definition s_unclean :: vfs where
  "s_unclean =
     \<lparr>RootDirectory = ''root'',
      rows = [file_row ''x/../a/f'' 3 100 ''h1''],
      faults = [],
      tree = [(''root'', Directory), (''root/a'', Directory)]\<rparr>"

text \<open>A file \<^verbatim>\<open>d\<close> where a directory is looked for.\<close>

definition s_blocked :: vfs where
  "s_blocked =
     \<lparr>RootDirectory = ''root'',
      rows = [file_row ''d'' 3 100 ''h1''],
      faults = [],
      tree = [(''root'', Directory), (''root/d'', File [1, 2, 3])]\<rparr>"


definition in_new :: reader where
  "in_new = \<lparr>rd_bytes = [4, 5, 6, 7], rd_err = False\<rparr>"


text \<open>
  Sources for the file \<^verbatim>\<open>d/x.txt\<close> recorded with size 3, time 100 and hash
  \<^verbatim>\<open>h1\<close>: one with the same attributes, one that differs in the modification time
  only, and the latter from a remote without MD5. A reader with three bytes.
\<close>

definition src_same :: ObjectInfo where
  "src_same =
     \<lparr>src_Remote = ''d/x.txt'', src_Size = 3, src_ModTime = Time 100 0, src_MD5 = True,
      src_Hash = ''h1'', src_Hash_err = False\<rparr>"

definition src_touched :: ObjectInfo where
  "src_touched =
     \<lparr>src_Remote = ''d/x.txt'', src_Size = 3, src_ModTime = Time 900 0, src_MD5 = True,
      src_Hash = ''h1'', src_Hash_err = False\<rparr>"

definition src_touched_nohash :: ObjectInfo where
  "src_touched_nohash =
     \<lparr>src_Remote = ''d/x.txt'', src_Size = 3, src_ModTime = Time 900 0, src_MD5 = False,
      src_Hash = [], src_Hash_err = True\<rparr>"

definition in_same :: reader where
  "in_same = \<lparr>rd_bytes = [1, 2, 3], rd_err = False\<rparr>"

text \<open>
  A new file whose modification time has a fraction of a second, its size and hash those
  of the content; and the same with the fraction left out.
\<close>

definition src_subsec :: ObjectInfo where
  "src_subsec =
     \<lparr>src_Remote = ''y.txt'', src_Size = 3, src_ModTime = Time 100 500, src_MD5 = True,
      src_Hash = md5_ex [1, 2, 3], src_Hash_err = False\<rparr>"

definition src_whole :: ObjectInfo where
  "src_whole =
     \<lparr>src_Remote = ''y.txt'', src_Size = 3, src_ModTime = Time 100 0, src_MD5 = True,
      src_Hash = md5_ex [1, 2, 3], src_Hash_err = False\<rparr>"

text \<open>The state after \<^verbatim>\<open>y.txt\<close> has been put once into the empty table.\<close>

definition s_y :: vfs where
  "s_y =
     \<lparr>RootDirectory = ''root'',
      rows = [dir_row ''.'' (Time 7 0), file_row ''y.txt'' 3 100 (md5_ex [1, 2, 3])],
      faults = [],
      tree = [(''root'', Directory), (''root/y.txt'', File [1, 2, 3])]\<rparr>"

section \<open>Basic facts\<close>

lemma db_call_fields:
  "db_call s = (b, s1) \<Longrightarrow>
     tree s1 = tree s \<and> rows s1 = rows s \<and> RootDirectory s1 = RootDirectory s"
  by (auto simp: db_call_def split: list.splits)

lemma db_call_no_faults: "faults s = [] \<Longrightarrow> db_call s = (False, s)"
  by (simp add: db_call_def)

lemma os_Remove_Inr:
  "os_Remove t p = Inr t1 \<Longrightarrow>
     map_of t p \<noteq> None \<and> map_of t1 p = None \<and> t1 = AList.delete p t"
  by (auto simp: os_Remove_def delete_conv split: if_splits option.splits node.splits)

section \<open>Removing a directory\<close>

lemma Rmdir_not_empty:
  assumes "Rmdir dir s = (Inl DirectoryNotEmpty, s')"
  shows "map_of (tree s) (fullPath s dir) \<noteq> None \<and> map_of (tree s') (fullPath s' dir) = None
         \<and> rows s' = rows s"
  using assms unfolding Rmdir_def
  by (auto simp: Let_def fullPath_def split: sum.splits if_splits prod.splits
           dest!: os_Remove_Inr db_call_fields)

lemma Rmdir_b_not_empty:
  assumes "Rmdir_b dir s = (Inl DirectoryNotEmpty, s')"
  shows "map_of (tree s) (fullPath s dir) \<noteq> None \<and> map_of (tree s') (fullPath s' dir) = None
         \<and> rows s' = rows s"
  using assms unfolding Rmdir_b_def
  by (auto simp: Let_def fullPath_def split: sum.splits if_splits prod.splits
           dest!: os_Remove_Inr db_call_fields)

text \<open>
  Claim C10. \<^verbatim>\<open>Rmdir\<close> removes the directory from the content file system before it
  counts the rows. Whenever it returns the error "directory not empty", in either file,
  the directory was in the content tree before the call and is not there after it, the
  table is as it was (so a row of the directory is still there), and the state as a
  whole has changed.
\<close>

theorem Rmdir_not_empty_after_removal:
  assumes "Rmdir dir s = (Inl DirectoryNotEmpty, s') \<or> Rmdir_b dir s = (Inl DirectoryNotEmpty, s')"
  shows "map_of (tree s) (fullPath s dir) \<noteq> None
         \<and> map_of (tree s') (fullPath s' dir) = None
         \<and> rows s' = rows s
         \<and> select_remote dir (rows s') = select_remote dir (rows s)
         \<and> s' \<noteq> s"
proof -
  from assms have main:
    "map_of (tree s) (fullPath s dir) \<noteq> None \<and> map_of (tree s') (fullPath s' dir) = None
     \<and> rows s' = rows s"
    using Rmdir_not_empty Rmdir_b_not_empty by blast
  moreover from main have "s' \<noteq> s" by auto
  ultimately show ?thesis by simp
qed

theorem Rmdir_not_empty_after_removal_witness:
  "Rmdir ''d'' s_ingested = (Inl DirectoryNotEmpty, s_ingested\<lparr>tree := [(''root'', Directory)]\<rparr>)
   \<and> Rmdir_b ''d'' s_ingested
       = (Inl DirectoryNotEmpty, s_ingested\<lparr>tree := [(''root'', Directory)]\<rparr>)
   \<and> map_of (tree s_ingested) (fullPath s_ingested ''d'') = Some Directory
   \<and> map_of (tree (s_ingested\<lparr>tree := [(''root'', Directory)]\<rparr>))
        (fullPath (s_ingested\<lparr>tree := [(''root'', Directory)]\<rparr>) ''d'') = None
   \<and> select_remote ''d'' (rows (s_ingested\<lparr>tree := [(''root'', Directory)]\<rparr>))
        = Some (dir_row ''d'' (Time 1 0))
   \<and> s_ingested\<lparr>tree := [(''root'', Directory)]\<rparr> \<noteq> s_ingested"
proof -
  have run: "Rmdir ''d'' s_ingested
             = (Inl DirectoryNotEmpty, s_ingested\<lparr>tree := [(''root'', Directory)]\<rparr>)"
    by code_simp
  have before: "map_of (tree s_ingested) (fullPath s_ingested ''d'') = Some Directory"
    by code_simp
  have run_b: "Rmdir_b ''d'' s_ingested
               = (Inl DirectoryNotEmpty, s_ingested\<lparr>tree := [(''root'', Directory)]\<rparr>)"
    by code_simp
  have kept: "select_remote ''d'' (rows s_ingested) = Some (dir_row ''d'' (Time 1 0))"
    by code_simp
  from Rmdir_not_empty_after_removal [OF disjI1 [OF run]]
       Rmdir_not_empty_after_removal [OF disjI2 [OF run_b]] run run_b before kept
  show ?thesis by simp
qed

section \<open>Tombstones\<close>

lemma select_remote_update:
  assumes "\<And>r. c_remote (f r) = c_remote r"
  shows "select_remote p (update_where_remote q f rs)
         = (if p = q then map_option f (select_remote p rs) else select_remote p rs)"
  using assms by (induction rs) (auto simp: select_remote_def update_where_remote_def)

lemma os_Create_Inr: "os_Create t p = Inr t1 \<Longrightarrow> map_of t1 p = Some (File [])"
  by (auto simp: os_Create_def update_conv' split: if_splits option.splits node.splits)

lemma NewObject_tombstone:
  assumes "faults s = []" "select_remote p (rows s) = Some r" "c_deleted r"
  shows "NewObject p s = (Inl ErrorObjectNotFound, s)"
  using assms by (simp add: NewObject_def db_call_no_faults)

lemma Remove_effect:
  assumes "Remove now o1 s = (Inr o', s')"
  shows "rows s' = update_where_remote (remote o1)
                     (\<lambda>r. r\<lparr>c_deleted := True, c_mod_time := Format now\<rparr>) (rows s)
         \<and> map_of (tree s') (fullPath s' (remote o1 @ ''.delete'')) = Some (File [])
         \<and> o' = o1\<lparr>deleted := True\<rparr>"
  using assms unfolding Remove_def
  by (auto simp: Let_def fullPath_def split: sum.splits if_splits prod.splits
           dest!: db_call_fields os_Create_Inr)

lemma Remove_b_effect:
  assumes "Remove_b now o1 s = (Inr o', s')"
  shows "rows s' = update_where_remote (remote o1)
                     (\<lambda>r. r\<lparr>c_deleted := True, c_mod_time := Format now\<rparr>) (rows s)
         \<and> map_of (tree s') (fullPath s' (remote o1 @ ''.delete'')) = Some (File [])
         \<and> o' = o1"
  using assms unfolding Remove_b_def
  by (auto simp: Let_def fullPath_def split: sum.splits if_splits prod.splits
           dest!: db_call_fields os_Create_Inr)

text \<open>
  Claim C5. Let the table hold a row \<open>r\<close> for the path of the object, let
  \<^verbatim>\<open>Object.Remove\<close> (of either file) succeed, and let the query of the next lookup
  not fail. Then \<^verbatim>\<open>NewObject\<close> answers \<^verbatim>\<open>ErrorObjectNotFound\<close>; the table still
  holds the row, now with \<^verbatim>\<open>deleted\<close> set and the time of the removal, its stored size
  as before, while an object scanned from it reports size 0; and the content tree has
  an empty file at the path with \<^verbatim>\<open>.delete\<close> appended.
\<close>

theorem Remove_tombstone:
  assumes held: "select_remote (remote o1) (rows s) = Some r"
      and quiet: "faults s' = []"
      and ran: "Remove now o1 s = (Inr o', s') \<or> Remove_b now o1 s = (Inr o', s')"
  shows "NewObject (remote o1) s' = (Inl ErrorObjectNotFound, s')
       \<and> select_remote (remote o1) (rows s')
           = Some (r\<lparr>c_deleted := True, c_mod_time := Format now\<rparr>)
       \<and> c_deleted (r\<lparr>c_deleted := True, c_mod_time := Format now\<rparr>)
       \<and> c_size (r\<lparr>c_deleted := True, c_mod_time := Format now\<rparr>) = c_size r
       \<and> Size (scan (r\<lparr>c_deleted := True, c_mod_time := Format now\<rparr>)) = 0
       \<and> map_of (tree s') (fullPath s' (remote o1 @ ''.delete'')) = Some (File [])"
proof -
  let ?r' = "r\<lparr>c_deleted := True, c_mod_time := Format now\<rparr>"
  from ran have eff:
    "rows s' = update_where_remote (remote o1)
                 (\<lambda>r. r\<lparr>c_deleted := True, c_mod_time := Format now\<rparr>) (rows s)
     \<and> map_of (tree s') (fullPath s' (remote o1 @ ''.delete'')) = Some (File [])"
    using Remove_effect Remove_b_effect by blast
  have row': "select_remote (remote o1) (rows s') = Some ?r'"
    using eff held by (simp add: select_remote_update)
  have "NewObject (remote o1) s' = (Inl ErrorObjectNotFound, s')"
    using NewObject_tombstone [OF quiet row'] by simp
  moreover have "Size (scan ?r') = 0" by (simp add: Size_def scan_def)
  ultimately show ?thesis using row' eff by simp
qed

theorem Remove_tombstone_witness:
  "select_remote (remote o_x) (rows s_live) = Some (file_row ''d/x.txt'' 3 100 ''h1'')
   \<and> faults s_tombstoned = []
   \<and> Remove (Time 200 0) o_x s_live = (Inr (o_x\<lparr>deleted := True\<rparr>), s_tombstoned)
   \<and> Remove_b (Time 200 0) o_x s_live = (Inr o_x, s_tombstoned)
   \<and> NewObject (remote o_x) s_tombstoned = (Inl ErrorObjectNotFound, s_tombstoned)
   \<and> select_remote (remote o_x) (rows s_tombstoned)
       = Some ((file_row ''d/x.txt'' 3 100 ''h1'')\<lparr>c_deleted := True, c_mod_time := Format (Time 200 0)\<rparr>)
   \<and> Size (scan ((file_row ''d/x.txt'' 3 100 ''h1'')\<lparr>c_deleted := True, c_mod_time := Format (Time 200 0)\<rparr>)) = 0
   \<and> map_of (tree s_tombstoned) (fullPath s_tombstoned (remote o_x @ ''.delete'')) = Some (File [])"
proof -
  have held: "select_remote (remote o_x) (rows s_live) = Some (file_row ''d/x.txt'' 3 100 ''h1'')"
    by code_simp
  have quiet: "faults s_tombstoned = []"
    by code_simp
  have ran: "Remove (Time 200 0) o_x s_live = (Inr (o_x\<lparr>deleted := True\<rparr>), s_tombstoned)"
    by code_simp
  have ran_b: "Remove_b (Time 200 0) o_x s_live = (Inr o_x, s_tombstoned)"
    by code_simp
  from Remove_tombstone [OF held quiet disjI1 [OF ran]]
       Remove_tombstone [OF held quiet disjI2 [OF ran_b]] held quiet ran ran_b
  show ?thesis by simp
qed

section \<open>A failed copy\<close>

lemma dir_rows_appended_iff:
  "dir_rows_appended rs rs' \<longleftrightarrow> (\<exists>ds. rs' = rs @ ds \<and> list_all c_is_dir ds)"
  unfolding dir_rows_appended_def
  by (metis append_eq_conv_conj)

lemma dir_rows_appended_refl: "dir_rows_appended rs rs"
  by (simp add: dir_rows_appended_def)

lemma dir_rows_appended_trans:
  "dir_rows_appended rs rs' \<Longrightarrow> dir_rows_appended rs' rs'' \<Longrightarrow> dir_rows_appended rs rs''"
  unfolding dir_rows_appended_iff by auto

lemma dir_rows_appended_insert: "dir_rows_appended rs (insert_or_ignore (dir_row p now) rs)"
  unfolding dir_rows_appended_iff
  by (auto simp: insert_or_ignore_def dir_row_def split: option.splits)

lemma select_remote_append:
  "select_remote p (rs @ ds) = (case select_remote p rs of None \<Rightarrow> select_remote p ds | Some r \<Rightarrow> Some r)"
  by (induction rs) (auto simp: select_remote_def)

lemma dir_rows_appended_keeps:
  "dir_rows_appended rs rs' \<Longrightarrow> select_remote p rs' = select_remote p rs \<or> select_remote p rs = None"
  unfolding dir_rows_appended_iff by (auto simp: select_remote_append split: option.splits)

lemma insert_dirs_state:
  "insert_dirs now parts cur rs s = (res, s') \<Longrightarrow>
     rows s' = rows s \<and> tree s' = tree s \<and> RootDirectory s' = RootDirectory s"
proof (induction parts arbitrary: cur rs s)
  case Nil
  then show ?case by simp
next
  case (Cons part parts)
  show ?case
  proof (cases "part = []")
    case True
    with Cons show ?thesis by simp
  next
    case False
    obtain bad s1 where c: "db_call s = (bad, s1)" by (cases "db_call s")
    from db_call_fields [OF c] Cons.prems Cons.IH False c show ?thesis
      by (auto simp: Let_def split: if_splits)
  qed
qed

lemma insert_dirs_rows:
  "insert_dirs now parts cur rs s = (Inr rs', s') \<Longrightarrow> dir_rows_appended rs rs'"
proof (induction parts arbitrary: cur rs s)
  case Nil
  then show ?case by (simp add: dir_rows_appended_refl)
next
  case (Cons part parts)
  show ?case
  proof (cases "part = []")
    case True
    with Cons show ?thesis by simp
  next
    case False
    obtain bad s1 where c: "db_call s = (bad, s1)" by (cases "db_call s")
    with Cons.prems False have
      "insert_dirs now parts (Join cur part) (insert_or_ignore (dir_row (Join cur part) now) rs) s1 = (Inr rs', s')"
      by (auto simp: Let_def split: if_splits)
    from Cons.IH [OF this] show ?thesis
      using dir_rows_appended_insert dir_rows_appended_trans by blast
  qed
qed

lemma ensureDirectoryStructure_rows:
  assumes "ensureDirectoryStructure now p s = (res, s')"
  shows "dir_rows_appended (rows s) (rows s') \<and> tree s' = tree s \<and> RootDirectory s' = RootDirectory s"
proof -
  obtain bad s1 where c1: "db_call s = (bad, s1)" by (cases "db_call s")
  note f1 = db_call_fields [OF c1]
  show ?thesis
  proof (cases bad)
    case True
    with assms c1 f1 show ?thesis
      by (auto simp: ensureDirectoryStructure_def dir_rows_appended_refl)
  next
    case False
    obtain r2 s2 where c2: "insert_dirs now (Split (Dir p)) [] (rows s1) s1 = (r2, s2)"
      by (cases "insert_dirs now (Split (Dir p)) [] (rows s1) s1")
    note f2 = insert_dirs_state [OF c2]
    show ?thesis
    proof (cases r2)
      case (Inl e)
      with assms c1 c2 f1 f2 False show ?thesis
        by (auto simp: ensureDirectoryStructure_def dir_rows_appended_refl)
    next
      case (Inr rs)
      obtain bad3 s3 where c3: "db_call s2 = (bad3, s3)" by (cases "db_call s2")
      note f3 = db_call_fields [OF c3]
      from insert_dirs_rows c2 Inr have "dir_rows_appended (rows s1) rs" by blast
      with assms c1 c2 c3 f1 f2 f3 False Inr show ?thesis
        by (auto simp: ensureDirectoryStructure_def dir_rows_appended_refl split: if_splits)
    qed
  qed
qed

lemma insert_dirs_b_state:
  "insert_dirs_b now parts cur s = (res, s') \<Longrightarrow>
     dir_rows_appended (rows s) (rows s') \<and> tree s' = tree s \<and> RootDirectory s' = RootDirectory s"
proof (induction parts arbitrary: cur s)
  case Nil
  then show ?case by (simp add: dir_rows_appended_refl)
next
  case (Cons part parts)
  show ?case
  proof (cases "part = []")
    case True
    with Cons show ?thesis by simp
  next
    case False
    obtain bad s1 where c: "db_call s = (bad, s1)" by (cases "db_call s")
    note f = db_call_fields [OF c]
    show ?thesis
    proof (cases bad)
      case True
      with Cons.prems False c f show ?thesis by (auto simp: dir_rows_appended_refl)
    next
      case nb: False
      let ?s2 = "s1\<lparr>rows := insert_or_ignore (dir_row (Join cur part) now) (rows s1)\<rparr>"
      from Cons.prems False c nb have "insert_dirs_b now parts (Join cur part) ?s2 = (res, s')"
        by (simp add: Let_def)
      from Cons.IH [OF this] f show ?thesis
        using dir_rows_appended_insert [of "rows s" "Join cur part" now] dir_rows_appended_trans
        by auto
    qed
  qed
qed

lemma ensureDirectoryStructure_b_rows:
  assumes "ensureDirectoryStructure_b now p s = (res, s')"
  shows "dir_rows_appended (rows s) (rows s') \<and> tree s' = tree s \<and> RootDirectory s' = RootDirectory s"
  using assms insert_dirs_b_state unfolding ensureDirectoryStructure_b_def by blast

lemma Put_write_copy_failure:
  assumes "rd_err inp"
  shows "isl (fst (Put_write md5 now inp src s))
         \<and> dir_rows_appended (rows s) (rows (snd (Put_write md5 now inp src s)))"
proof -
  obtain r1 s1 where c1: "ensureDirectoryStructure now (src_Remote src) s = (r1, s1)"
    by (cases "ensureDirectoryStructure now (src_Remote src) s")
  note f1 = ensureDirectoryStructure_rows [OF c1]
  with assms c1 show ?thesis
    unfolding Put_write_def
    by (auto simp: Let_def split: sum.splits)
qed

lemma Put_b_copy_failure:
  assumes "rd_err inp"
  shows "isl (fst (Put_b now inp src s))
         \<and> dir_rows_appended (rows s) (rows (snd (Put_b now inp src s)))"
proof -
  obtain r1 s1 where c1: "ensureDirectoryStructure_b now (src_Remote src) s = (r1, s1)"
    by (cases "ensureDirectoryStructure_b now (src_Remote src) s")
  note f1 = ensureDirectoryStructure_b_rows [OF c1]
  with assms c1 show ?thesis
    unfolding Put_b_def
    by (auto simp: Let_def split: sum.splits)
qed

lemma NewObject_state:
  "NewObject p s = (res, s') \<Longrightarrow> rows s' = rows s \<and> tree s' = tree s \<and> RootDirectory s' = RootDirectory s"
  unfolding NewObject_def
  by (auto simp: Let_def split: prod.splits if_splits option.splits dest!: db_call_fields)

lemma Put_copy_failure:
  assumes "rd_err inp"
  shows "(Put md5 now inp src s = NewObject (src_Remote src) s \<or> isl (fst (Put md5 now inp src s)))
         \<and> dir_rows_appended (rows s) (rows (snd (Put md5 now inp src s)))"
proof -
  obtain r0 s0 where c0: "NewObject (src_Remote src) s = (r0, s0)"
    by (cases "NewObject (src_Remote src) s")
  note f0 = NewObject_state [OF c0]
  from Put_write_copy_failure [OF assms, of md5 now src s0] f0 c0
  show ?thesis
    unfolding Put_def
    by (auto simp: Let_def dir_rows_appended_refl split: sum.splits)
qed

lemma Update_copy_failure:
  assumes "rd_err inp"
  shows "(Update md5 inp src o1 s = (Inr o1, s) \<or> isl (fst (Update md5 inp src o1 s)))
         \<and> rows (snd (Update md5 inp src o1 s)) = rows s"
  using assms unfolding Update_def
  by (auto simp: Let_def split: sum.splits)

lemma Update_b_copy_failure:
  assumes "rd_err inp"
  shows "isl (fst (Update_b inp src o1 s)) \<and> rows (snd (Update_b inp src o1 s)) = rows s"
  using assms unfolding Update_b_def
  by (auto simp: Let_def split: sum.splits)

text \<open>
  Claim C4. When the copy of the content stops with an error, every operation that
  writes content returns an error and no row of a file is written: \<^verbatim>\<open>Put\<close> of
  either file leaves the table as it was but for directory rows added at its end by
  \<^verbatim>\<open>ensureDirectoryStructure\<close> before the copy, so the row stored for the path, if
  there is one, is the same; \<^verbatim>\<open>Update\<close> of either file leaves the table as it was.
  (\<^verbatim>\<open>Put\<close> and \<^verbatim>\<open>Update\<close> of \<^verbatim>\<open>part_000\<close> may also decide to skip, and then
  read nothing from the reader.)
\<close>

theorem copy_failure_commits_no_record:
  assumes "rd_err inp"
  shows "(Put md5 now inp src s = NewObject (src_Remote src) s
            \<or> isl (fst (Put md5 now inp src s)))
       \<and> dir_rows_appended (rows s) (rows (snd (Put md5 now inp src s)))
       \<and> (select_remote (src_Remote src) (rows (snd (Put md5 now inp src s)))
            = select_remote (src_Remote src) (rows s)
          \<or> select_remote (src_Remote src) (rows s) = None)
       \<and> isl (fst (Put_b now inp src s))
       \<and> dir_rows_appended (rows s) (rows (snd (Put_b now inp src s)))
       \<and> (select_remote (src_Remote src) (rows (snd (Put_b now inp src s)))
            = select_remote (src_Remote src) (rows s)
          \<or> select_remote (src_Remote src) (rows s) = None)
       \<and> (Update md5 inp src o1 s = (Inr o1, s) \<or> isl (fst (Update md5 inp src o1 s)))
       \<and> rows (snd (Update md5 inp src o1 s)) = rows s
       \<and> isl (fst (Update_b inp src o1 s))
       \<and> rows (snd (Update_b inp src o1 s)) = rows s"
proof -
  note p = Put_copy_failure [OF assms, of md5 now src s]
  note pb = Put_b_copy_failure [OF assms, of now src s]
  have "select_remote (src_Remote src) (rows (snd (Put md5 now inp src s)))
                 = select_remote (src_Remote src) (rows s)
               \<or> select_remote (src_Remote src) (rows s) = None"
    by (rule dir_rows_appended_keeps) (rule conjunct2 [OF p])
  moreover have "select_remote (src_Remote src) (rows (snd (Put_b now inp src s)))
                 = select_remote (src_Remote src) (rows s)
               \<or> select_remote (src_Remote src) (rows s) = None"
    by (rule dir_rows_appended_keeps) (rule conjunct2 [OF pb])
  ultimately show ?thesis
    using p pb Update_copy_failure [OF assms, of md5 src o1 s]
      Update_b_copy_failure [OF assms, of src o1 s]
    by simp
qed

theorem copy_failure_commits_no_record_witness:
  "rd_err in_broken
   \<and> Put md5_ex (Time 300 0) in_broken src_changed s_live
       = (Inl CopyError,
          s_live\<lparr>tree := [(''root'', Directory), (''root/d'', Directory),
                           (''root/d/x.txt'', File [7, 7])]\<rparr>)
   \<and> dir_rows_appended (rows s_live)
        (rows (snd (Put md5_ex (Time 300 0) in_broken src_changed s_live)))
   \<and> select_remote ''d/x.txt'' (rows (snd (Put md5_ex (Time 300 0) in_broken src_changed s_live)))
       = Some (file_row ''d/x.txt'' 3 100 ''h1'')
   \<and> fst (Put_b (Time 300 0) in_broken src_changed s_live) = Inl CopyError
   \<and> rows (snd (Put_b (Time 300 0) in_broken src_changed s_live)) = rows s_live
   \<and> fst (Update md5_ex in_broken src_changed o_x s_live) = Inl CopyError
   \<and> rows (snd (Update md5_ex in_broken src_changed o_x s_live)) = rows s_live
   \<and> fst (Update_b in_broken src_changed o_x s_live) = Inl CopyError
   \<and> rows (snd (Update_b in_broken src_changed o_x s_live)) = rows s_live"
proof -
  have broken: "rd_err in_broken"
    by code_simp
  have put: "Put md5_ex (Time 300 0) in_broken src_changed s_live
       = (Inl CopyError,
          s_live\<lparr>tree := [(''root'', Directory), (''root/d'', Directory),
                           (''root/d/x.txt'', File [7, 7])]\<rparr>)"
    by code_simp
  have kept: "select_remote ''d/x.txt''
                (rows (snd (Put md5_ex (Time 300 0) in_broken src_changed s_live)))
              = Some (file_row ''d/x.txt'' 3 100 ''h1'')"
    by code_simp
  have put_b: "fst (Put_b (Time 300 0) in_broken src_changed s_live) = Inl CopyError"
    by code_simp
  have rows_b: "rows (snd (Put_b (Time 300 0) in_broken src_changed s_live)) = rows s_live"
    by code_simp
  have upd: "fst (Update md5_ex in_broken src_changed o_x s_live) = Inl CopyError"
    by code_simp
  have upd_b: "fst (Update_b in_broken src_changed o_x s_live) = Inl CopyError"
    by code_simp
  from copy_failure_commits_no_record
         [OF broken, of md5_ex "Time 300 0" src_changed s_live o_x]
       broken put kept put_b rows_b upd upd_b
  show ?thesis by simp
qed

section \<open>Facts about paths and patterns\<close>

subsection \<open>Split and Join\<close>

lemma Split_not_Nil: "Split p \<noteq> []"
  by (induction p) (auto split: list.splits)

lemma Split_no_slash: "e \<in> set (Split p) \<Longrightarrow> CHR ''/'' \<notin> set e"
  by (induction p arbitrary: e) (auto split: list.splits if_splits)

lemma Split_slash_free: "CHR ''/'' \<notin> set e \<Longrightarrow> Split e = [e]"
  by (induction e) auto

lemma Split_append: "Split (a @ CHR ''/'' # b) = Split a @ Split b"
proof (induction a)
  case Nil
  then show ?case by simp
next
  case (Cons c a)
  obtain x xs where sa: "Split a = x # xs" using Split_not_Nil by (cases "Split a") auto
  with Cons show ?case by auto
qed

lemma Join_Split: "Join_slash (Split p) = p"
proof (induction p)
  case Nil
  then show ?case by simp
next
  case (Cons c p)
  obtain x xs where sp: "Split p = x # xs" using Split_not_Nil by (cases "Split p") auto
  with Cons show ?case by (cases xs) auto
qed

lemma Join_snoc: "xs \<noteq> [] \<Longrightarrow> Join_slash (xs @ [y]) = Join_slash xs @ CHR ''/'' # y"
  by (induction xs rule: Join_slash.induct) auto

lemma Split_Join:
  "xs \<noteq> [] \<Longrightarrow> \<forall>e \<in> set xs. CHR ''/'' \<notin> set e \<Longrightarrow> Split (Join_slash xs) = xs"
proof (induction xs rule: Join_slash.induct)
  case 1
  then show ?case by simp
next
  case (2 p)
  then show ?case by (simp add: Split_slash_free)
next
  case (3 p q ps)
  then show ?case by (simp add: Split_append Split_slash_free)
qed

subsection \<open>LIKE\<close>

lemma like_chars_percent_skip: "like_chars ps cs \<Longrightarrow> like_chars (37 # ps) cs"
  by (cases cs) auto

lemma like_chars_percent_all: "like_chars [37] cs"
  by (induction cs) auto

lemma like_chars_prefix: "like_chars ps cs \<Longrightarrow> like_chars (d @ ps) (d @ cs)"
proof (induction d)
  case Nil
  then show ?case by simp
next
  case (Cons c d)
  then show ?case by (auto simp: like_chars_percent_skip)
qed

lemma like_chars_needs_slash:
  "like_chars ps cs \<Longrightarrow> 47 \<in> set ps \<Longrightarrow> 47 \<in> set cs"
proof (induction ps cs rule: like_chars.induct)
  case (1 s)
  then show ?case by simp
next
  case (2 p ps)
  then show ?case by auto
next
  case (3 p ps c cs)
  show ?case
  proof (cases "p = 37")
    case True
    with 3 show ?thesis by auto
  next
    case False
    with 3 show ?thesis by (auto simp: to_lower_def split: if_splits)
  qed
qed

lemma like_chars_has_slash: "like_chars [37, 47, 37] (a @ 47 # b)"
proof (induction a)
  case Nil
  then show ?case by (simp add: like_chars_percent_all)
next
  case (Cons c a)
  then show ?case by simp
qed

lemma of_char_slash: "(of_char c :: int) = 47 \<longleftrightarrow> c = CHR ''/''"
proof
  assume "(of_char c :: int) = 47"
  then have "(of_char c :: int) = of_char (CHR ''/'')" by simp
  then show "c = CHR ''/''" by (simp only: of_char_eq_iff)
qed simp

lemma fix_cp_not_slash: "fix_cp c \<noteq> 47"
  by (simp add: fix_cp_def)

lemma utf8_chars_slash: "47 \<in> set (utf8_chars st s) \<longleftrightarrow> CHR ''/'' \<in> set s"
  by (induction st s rule: utf8_chars.induct)
     (auto simp: of_char_slash fix_cp_not_slash is_cont_def)

lemma utf8_chars_Some:
  "\<not> is_cont c \<Longrightarrow> utf8_chars (Some x) (c # b) = fix_cp x # utf8_chars None (c # b)"
  by simp

lemma utf8_chars_append:
  "\<not> is_cont c \<Longrightarrow> utf8_chars st (a @ c # b) = utf8_chars st a @ utf8_chars None (c # b)"
proof (induction st a rule: utf8_chars.induct)
  case 1
  then show ?case by simp
next
  case (2 x)
  then show ?case by simp
next
  case (3 d ds)
  then show ?case by simp
next
  case (4 x d ds)
  then show ?case by simp
qed

lemma utf8_chars_slash_Cons: "utf8_chars None (CHR ''/'' # b) = 47 # utf8_chars None b"
  by simp

lemma not_cont_slash: "\<not> is_cont CHR ''/''"
  by (simp add: is_cont_def)

lemma like_percent_all: "like ''%'' cs"
  by (simp add: like_def like_chars_percent_all)

lemma like_of_prefix: "prefix (d @ ''/'') p \<Longrightarrow> like (d @ ''/%'') p"
proof -
  assume "prefix (d @ ''/'') p"
  then obtain rest where p: "p = d @ CHR ''/'' # rest" by (auto simp: prefix_def)
  have "like_chars [47, 37] (47 # utf8_chars None rest)" by (simp add: like_chars_percent_all)
  from like_chars_prefix [OF this, of "utf8_chars None d"] show ?thesis
    unfolding like_def p by (simp add: utf8_chars_append [OF not_cont_slash])
qed

lemma like_slash_percent: "like ''/%'' (CHR ''/'' # rest)"
  by (simp add: like_def like_chars_percent_all)

lemma like_needs_slash: "like ps cs \<Longrightarrow> CHR ''/'' \<in> set ps \<Longrightarrow> CHR ''/'' \<in> set cs"
  using like_chars_needs_slash [of "utf8_chars None ps" "utf8_chars None cs"]
  by (simp add: like_def utf8_chars_slash)

lemma like_has_slash: "like ''%/%'' p \<longleftrightarrow> CHR ''/'' \<in> set p"
proof
  assume "like ''%/%'' p"
  from like_needs_slash [OF this] show "CHR ''/'' \<in> set p" by simp
next
  assume "CHR ''/'' \<in> set p"
  then obtain a b where "p = a @ CHR ''/'' # b" by (meson split_list)
  then show "like ''%/%'' p"
    using like_chars_has_slash [of "utf8_chars None a" "utf8_chars None b"]
    by (simp add: like_def utf8_chars_append [OF not_cont_slash])
qed

subsection \<open>Clean on canonical paths\<close>

lemma foldl_clean_names:
  "list_all is_name xs \<Longrightarrow> foldl (clean_elem r) acc xs = rev xs @ acc"
  by (induction xs arbitrary: acc) (auto simp: is_name_def)

lemma canonical_not_Nil: "canonical p \<Longrightarrow> p \<noteq> []"
  by (auto simp: canonical_def is_name_def)

lemma canonical_not_rooted: "canonical p \<Longrightarrow> hd p \<noteq> CHR ''/''"
  by (cases p) (auto simp: canonical_def is_name_def)

lemma Clean_canonical: "canonical p \<Longrightarrow> Clean p = p"
  using canonical_not_Nil [of p] canonical_not_rooted [of p]
  by (simp add: Clean_def Let_def canonical_def foldl_clean_names Join_Split)

lemma canonical_append: "canonical a \<Longrightarrow> canonical b \<Longrightarrow> canonical (a @ CHR ''/'' # b)"
  by (simp add: canonical_def Split_append)

lemma canonical_split:
  "canonical (a @ CHR ''/'' # b) \<Longrightarrow> canonical a \<and> canonical b"
  by (simp add: canonical_def Split_append)

lemma Clean_trailing_slash: "canonical a \<Longrightarrow> Clean (a @ ''/'') = a"
  using canonical_not_Nil [of a] canonical_not_rooted [of a]
  by (simp add: Clean_def Let_def canonical_def Split_append foldl_clean_names Join_Split)

lemma dir_part_last: "CHR ''/'' \<notin> set b \<Longrightarrow> dir_part (a @ CHR ''/'' # b) = a @ ''/''"
proof -
  assume nb: "CHR ''/'' \<notin> set b"
  then have "dropWhile (\<lambda>c. c \<noteq> CHR ''/'') (rev b @ CHR ''/'' # rev a) = CHR ''/'' # rev a"
    by (auto simp: dropWhile_append3)
  then show ?thesis by (simp add: dir_part_def)
qed

lemma dir_part_no_slash: "CHR ''/'' \<notin> set p \<Longrightarrow> dir_part p = []"
  by (auto simp: dir_part_def)

lemma Dir_canonical:
  assumes "canonical (a @ CHR ''/'' # b)" "CHR ''/'' \<notin> set b"
  shows "Dir (a @ CHR ''/'' # b) = a"
  using assms canonical_split [OF assms(1)]
  by (simp add: Dir_def dir_part_last Clean_trailing_slash)

lemma Dir_no_slash: "CHR ''/'' \<notin> set p \<Longrightarrow> Dir p = ''.''"
  by (simp add: Dir_def dir_part_no_slash Clean_def)

lemma split_last_slash:
  "CHR ''/'' \<in> set p \<Longrightarrow> \<exists>a b. p = a @ CHR ''/'' # b \<and> CHR ''/'' \<notin> set b"
  by (meson split_list_last)

lemma canonical_percent: "canonical ''%''"
  by (simp add: canonical_def is_name_def)

lemma Join_percent: "canonical d \<Longrightarrow> Join d ''%'' = d @ ''/%''"
  using canonical_not_Nil [of d] Clean_canonical [OF canonical_append [OF _ canonical_percent], of d]
  by (simp add: Join_def)

text \<open>The one-level scope in the words of the specification agrees with the query and
  the parent test of the code on well-formed paths.\<close>

lemma scope_iff:
  assumes wf: "well_formed p" and d: "dir \<noteq> []"
  shows "like (dir @ ''/%'') p \<and> Dir p = dir \<longleftrightarrow> prefix (dir @ ''/'') p \<and> Dir p = dir"
proof
  assume a: "like (dir @ ''/%'') p \<and> Dir p = dir"
  then have "CHR ''/'' \<in> set p" using like_needs_slash [of "dir @ ''/%''" p] by simp
  then obtain x y where p: "p = x @ CHR ''/'' # y" and y: "CHR ''/'' \<notin> set y"
    using split_last_slash by blast
  with wf have c: "canonical (x @ CHR ''/'' # y)"
    by (cases x) (auto simp: well_formed_def)
  from Dir_canonical [OF c y] a p have "dir = x" by simp
  with p a show "prefix (dir @ ''/'') p \<and> Dir p = dir" by simp
next
  assume "prefix (dir @ ''/'') p \<and> Dir p = dir"
  then show "like (dir @ ''/%'') p \<and> Dir p = dir" by (simp add: like_of_prefix)
qed

subsection \<open>The shape of a cleaned path\<close>

lemma okst_Nil: "okst r []"
  by (simp add: okst_def)

lemma okst_step:
  assumes "okst r st" "CHR ''/'' \<notin> set e"
  shows "okst r (clean_elem r st e)"
proof -
  from assms(1) obtain ns k where st: "st = ns @ replicate k ''..''" and ns: "list_all is_name ns"
    and sl: "\<forall>e \<in> set ns. CHR ''/'' \<notin> set e" and rk: "r \<longrightarrow> k = 0"
    by (auto simp: okst_def)
  consider (skip) "e = [] \<or> e = ''.''" | (dd) "e = ''..''" | (name) "is_name e"
    by (auto simp: is_name_def)
  then show ?thesis
  proof cases
    case skip
    with assms(1) show ?thesis by auto
  next
    case dd
    show ?thesis
    proof (cases ns)
      case Nil
      show ?thesis
      proof (cases k)
        case 0
        show ?thesis
        proof (cases r)
          case True
          with 0 Nil st dd have "clean_elem r st e = []" by simp
          then show ?thesis by (simp add: okst_Nil)
        next
          case False
          with 0 Nil st dd have "clean_elem r st e = replicate (Suc 0) ''..''" by simp
          with False show ?thesis unfolding okst_def
            by (intro exI [of _ "[]"] exI [of _ "Suc 0"]) simp
        qed
      next
        case (Suc j)
        with rk have nr: "\<not> r" by simp
        from Suc Nil st dd nr have "clean_elem r st e = replicate (Suc k) ''..''" by simp
        with nr show ?thesis unfolding okst_def
          by (intro exI [of _ "[]"] exI [of _ "Suc k"]) simp
      qed
    next
      case (Cons n ns')
      with ns have "n \<noteq> ''..''" by (simp add: is_name_def)
      with Cons st dd have "clean_elem r st e = ns' @ replicate k ''..''" by simp
      with Cons ns sl rk show ?thesis unfolding okst_def
        by (intro exI [of _ ns'] exI [of _ k]) simp
    qed
  next
    case name
    then have "clean_elem r st e = (e # ns) @ replicate k ''..''"
      using st by (simp add: is_name_def)
    with name ns sl rk assms(2) show ?thesis unfolding okst_def
      by (intro exI [of _ "e # ns"] exI [of _ k]) simp
  qed
qed

lemma okst_foldl:
  "okst r acc \<Longrightarrow> \<forall>e \<in> set xs. CHR ''/'' \<notin> set e \<Longrightarrow> okst r (foldl (clean_elem r) acc xs)"
  by (induction xs arbitrary: acc) (auto simp: okst_step simp del: clean_elem.simps)

lemma okst_Split: "okst r (foldl (clean_elem r) [] (Split y))"
  using okst_foldl [OF okst_Nil] Split_no_slash by blast

lemma foldl_dotdots:
  "foldl (clean_elem False) (replicate j ''..'') (replicate k ''..'') = replicate (k + j) ''..''"
proof (induction k arbitrary: j)
  case 0
  then show ?case by simp
next
  case (Suc k)
  have "clean_elem False (replicate j ''..'') ''..'' = replicate (Suc j) ''..''"
    by (cases j) auto
  with Suc [of "Suc j"] show ?case by (simp del: clean_elem.simps)
qed

lemma foldl_rebuild:
  assumes "okst r st"
  shows "foldl (clean_elem r) [] (rev st) = st"
proof -
  from assms obtain ns k where st: "st = ns @ replicate k ''..''" and ns: "list_all is_name ns"
    and rk: "r \<longrightarrow> k = 0"
    by (auto simp: okst_def)
  have dots: "foldl (clean_elem r) [] (replicate k ''..'') = replicate k ''..''"
  proof (cases r)
    case True
    with rk show ?thesis by simp
  next
    case False
    with foldl_dotdots [of 0 k] show ?thesis by simp
  qed
  have "rev st = replicate k ''..'' @ rev ns" using st by simp
  then have "foldl (clean_elem r) [] (rev st)
             = foldl (clean_elem r) (replicate k ''..'') (rev ns)"
    using dots by (simp del: clean_elem.simps)
  also have "\<dots> = rev (rev ns) @ replicate k ''..''"
    using ns by (intro foldl_clean_names) simp
  finally show ?thesis using st by simp
qed

lemma okst_elems:
  "okst r st \<Longrightarrow> e \<in> set st \<Longrightarrow> e \<noteq> [] \<and> CHR ''/'' \<notin> set e"
  by (auto simp: okst_def is_name_def list_all_iff)

lemma Join_slash_hd: "xs \<noteq> [] \<Longrightarrow> hd xs \<noteq> [] \<Longrightarrow> Join_slash xs \<noteq> [] \<and> hd (Join_slash xs) = hd (hd xs)"
  by (induction xs rule: Join_slash.induct) auto

lemma Clean_eq:
  assumes "y \<noteq> []" "r = (hd y = CHR ''/'')" "st = foldl (clean_elem r) [] (Split y)"
  shows "Clean y = (if r then CHR ''/'' # Join_slash (rev st)
                    else if Join_slash (rev st) = [] then ''.'' else Join_slash (rev st))"
  using assms by (simp add: Clean_def Let_def del: clean_elem.simps)

lemma Clean_rebuild:
  assumes ok: "okst r st" and ne: "st \<noteq> []"
  shows "Clean ((if r then ''/'' else []) @ Join_slash (rev st))
         = (if r then ''/'' else []) @ Join_slash (rev st)"
proof -
  let ?xs = "rev st"
  let ?j = "Join_slash ?xs"
  from ne have xne: "?xs \<noteq> []" by simp
  have el: "\<forall>e \<in> set ?xs. e \<noteq> [] \<and> CHR ''/'' \<notin> set e" using okst_elems [OF ok] by simp
  then have hdne: "hd ?xs \<noteq> []" and hdsl: "CHR ''/'' \<notin> set (hd ?xs)" using xne by (auto simp del: set_rev)
  from Join_slash_hd [OF xne hdne] have jne: "?j \<noteq> []" and jhd: "hd ?j = hd (hd ?xs)" by simp_all
  from hdne hdsl have "hd (hd ?xs) \<noteq> CHR ''/''" by (cases "hd ?xs") auto
  with jhd have nroot: "hd ?j \<noteq> CHR ''/''" by simp
  have sp: "Split ?j = ?xs" using Split_Join [OF xne] el by blast
  show ?thesis
  proof (cases r)
    case True
    have "foldl (clean_elem True) [] ([] # ?xs) = foldl (clean_elem True) [] ?xs" by simp
    with foldl_rebuild [OF ok] True have "foldl (clean_elem True) [] ([] # ?xs) = st" by simp
    with True sp show ?thesis by (simp add: Clean_def Let_def del: clean_elem.simps foldl_Cons)
  next
    case False
    with foldl_rebuild [OF ok] sp jne nroot show ?thesis
      by (simp add: Clean_def Let_def del: clean_elem.simps)
  qed
qed

lemma Clean_idem: "Clean (Clean y) = Clean y"
proof (cases "y = []")
  case True
  then show ?thesis by (simp add: Clean_def)
next
  case False
  define r where "r = (hd y = CHR ''/'')"
  define st where "st = foldl (clean_elem r) [] (Split y)"
  have ok: "okst r st" unfolding st_def by (rule okst_Split)
  note eq = Clean_eq [OF False r_def st_def]
  show ?thesis
  proof (cases "st = []")
    case True
    have "Clean ''/'' = ''/''" "Clean ''.'' = ''.''" by code_simp+
    with True eq show ?thesis by (cases r) simp_all
  next
    case ne: False
    have el: "\<forall>e \<in> set (rev st). e \<noteq> [] \<and> CHR ''/'' \<notin> set e"
      using okst_elems [OF ok] by simp
    from ne el have "hd (rev st) \<noteq> []" by (auto simp del: set_rev)
    with Join_slash_hd [of "rev st"] ne have jne: "Join_slash (rev st) \<noteq> []" by simp
    from eq jne have "Clean y = (if r then ''/'' else []) @ Join_slash (rev st)"
      by simp
    with Clean_rebuild [OF ok ne] show ?thesis by simp
  qed
qed

text \<open>The pattern of the second file, \<^verbatim>\<open>filepath.Join(dir, "%")\<close>, on a cleaned directory.\<close>

lemma Clean_percent:
  assumes "x \<noteq> []"
  shows "Clean (x @ ''/%'') = ''%'' \<or> (hd x = CHR ''/'' \<and> Clean (x @ ''/%'') = ''/%'')
         \<or> Clean (x @ ''/%'') = Clean x @ ''/%''"
proof -
  define r where "r = (hd x = CHR ''/'')"
  define st where "st = foldl (clean_elem r) [] (Split x)"
  have ok: "okst r st" unfolding st_def by (rule okst_Split)
  have r': "r = (hd (x @ ''/%'') = CHR ''/'')" using assms by (simp add: r_def)
  have "foldl (clean_elem r) [] (Split (x @ ''/%'')) = clean_elem r st ''%''"
    by (simp add: Split_append st_def del: clean_elem.simps)
  then have st': "''%'' # st = foldl (clean_elem r) [] (Split (x @ ''/%''))"
    by simp
  have ne': "x @ ''/%'' \<noteq> []" by simp
  note eq = Clean_eq [OF assms r_def st_def]
  note eq' = Clean_eq [OF ne' r' st']
  show ?thesis
  proof (cases "st = []")
    case True
    with eq' show ?thesis by (cases r) (simp_all add: r_def)
  next
    case ne: False
    have el: "\<forall>e \<in> set (rev st). e \<noteq> [] \<and> CHR ''/'' \<notin> set e"
      using okst_elems [OF ok] by simp
    from ne el have "hd (rev st) \<noteq> []" by (auto simp del: set_rev)
    with Join_slash_hd [of "rev st"] ne have jne: "Join_slash (rev st) \<noteq> []" by simp
    have "Join_slash (rev (''%'' # st)) = Join_slash (rev st) @ ''/%''"
      using Join_snoc [of "rev st" "''%''"] ne by simp
    with eq eq' jne have "Clean (x @ ''/%'') = Clean x @ ''/%''"
      by (cases r) simp_all
    then show ?thesis by simp
  qed
qed

lemma like_Join_percent:
  assumes pre: "prefix (dir @ ''/'') p" and par: "Dir p = dir" and ne: "dir \<noteq> []"
  shows "like (Join dir ''%'') p"
proof -
  have j: "Join dir ''%'' = Clean (dir @ ''/%'')" using ne by (simp add: Join_def)
  have idem: "Clean dir = dir" using par Clean_idem [of "dir_part p"] by (simp add: Dir_def)
  from pre obtain rest where p: "p = dir @ ''/'' @ rest" by (auto simp: prefix_def)
  from Clean_percent [OF ne] consider
      (all) "Clean (dir @ ''/%'') = ''%''"
    | (root) "hd dir = CHR ''/''" "Clean (dir @ ''/%'') = ''/%''"
    | (lit) "Clean (dir @ ''/%'') = Clean dir @ ''/%''"
    by blast
  then show ?thesis
  proof cases
    case all
    with j show ?thesis by (simp add: like_percent_all)
  next
    case root
    with ne obtain d' where "dir = CHR ''/'' # d'" by (cases dir) auto
    with p have "p = CHR ''/'' # (d' @ ''/'' @ rest)" by simp
    then have "like ''/%'' p" by (simp add: like_slash_percent)
    with root j show ?thesis by simp
  next
    case lit
    with j idem like_of_prefix [OF pre] show ?thesis by simp
  qed
qed

section \<open>Listing\<close>

lemma list_entries_eq:
  "list_entries dir rs
   = map entry_of (filter (\<lambda>r. dir = [] \<or> Dir (c_remote r) = dir) rs)"
  by (induction rs) (auto simp: Let_def entry_of_def scan_def)

lemma List_eq:
  assumes "faults s = []"
  shows "List dir s
         = (Inr (map entry_of
                  (filter (\<lambda>r. \<not> c_deleted r
                                \<and> (if dir = [] then \<not> like ''%/%'' (c_remote r)
                                    else like (dir @ ''/%'') (c_remote r) \<and> Dir (c_remote r) = dir))
                     (rows s))), s)"
proof -
  have "filter (\<lambda>r. dir = [] \<or> Dir (c_remote r) = dir)
          (if dir = []
           then filter (\<lambda>r. \<not> like ''%/%'' (c_remote r) \<and> \<not> c_deleted r) (rows s)
           else filter (\<lambda>r. like (dir @ ''/%'') (c_remote r) \<and> \<not> c_deleted r) (rows s))
        = filter (\<lambda>r. \<not> c_deleted r
                       \<and> (if dir = [] then \<not> like ''%/%'' (c_remote r)
                           else like (dir @ ''/%'') (c_remote r) \<and> Dir (c_remote r) = dir))
            (rows s)"
    by (cases "dir = []") (auto intro: filter_cong)
  with assms show ?thesis
    by (simp add: List_def db_call_no_faults list_entries_eq)
qed

lemma List_b_eq:
  assumes "faults s = []"
  shows "List_b dir s
         = (Inr (map entry_of
                  (filter (\<lambda>r. \<not> c_deleted r
                                \<and> (if dir = [] then \<not> like ''%/%'' (c_remote r)
                                    else like (Join dir ''%'') (c_remote r) \<and> Dir (c_remote r) = dir))
                     (rows s))), s)"
proof -
  have "filter (\<lambda>r. dir = [] \<or> Dir (c_remote r) = dir)
          (if dir = []
           then filter (\<lambda>r. \<not> like ''%/%'' (c_remote r) \<and> \<not> c_deleted r) (rows s)
           else filter (\<lambda>r. like (Join dir ''%'') (c_remote r) \<and> \<not> c_deleted r) (rows s))
        = filter (\<lambda>r. \<not> c_deleted r
                       \<and> (if dir = [] then \<not> like ''%/%'' (c_remote r)
                           else like (Join dir ''%'') (c_remote r) \<and> Dir (c_remote r) = dir))
            (rows s)"
    by (cases "dir = []") (auto intro: filter_cong)
  with assms show ?thesis
    by (simp add: List_b_def db_call_no_faults list_entries_eq)
qed

lemma scope_b_iff:
  assumes wf: "well_formed p" and d: "dir \<noteq> []" and nd: "dir \<noteq> ''.''"
  shows "like (Join dir ''%'') p \<and> Dir p = dir \<longleftrightarrow> prefix (dir @ ''/'') p \<and> Dir p = dir"
proof
  assume a: "like (Join dir ''%'') p \<and> Dir p = dir"
  have "CHR ''/'' \<in> set p"
  proof (rule ccontr)
    assume "CHR ''/'' \<notin> set p"
    from Dir_no_slash [OF this] a nd show False by simp
  qed
  then obtain x y where p: "p = x @ CHR ''/'' # y" and y: "CHR ''/'' \<notin> set y"
    using split_last_slash by blast
  with wf have c: "canonical (x @ CHR ''/'' # y)"
    by (cases x) (auto simp: well_formed_def)
  from Dir_canonical [OF c y] a p have "dir = x" by simp
  with p a show "prefix (dir @ ''/'') p \<and> Dir p = dir" by simp
next
  assume "prefix (dir @ ''/'') p \<and> Dir p = dir"
  then show "like (Join dir ''%'') p \<and> Dir p = dir" using like_Join_percent d by simp
qed

text \<open>
  Claim C7, as amended. Let every path stored in the table be well formed (canonical, or
  \<^verbatim>\<open>.\<close>) and let the query not fail. Then \<^verbatim>\<open>List\<close> returns, in the order of
  the table, exactly the entries of the rows that are not deleted and lie one level
  under the directory: for the empty directory the rows whose path has no separator,
  otherwise the rows prefixed by the directory and a slash whose parent is the
  directory. \<^verbatim>\<open>List\<close> of \<^verbatim>\<open>virtualfs.go\<close> does the same for every directory but
  \<^verbatim>\<open>.\<close>.
\<close>

theorem List_one_level:
  assumes wf: "\<forall>r \<in> set (rows s). well_formed (c_remote r)"
      and quiet: "faults s = []"
  shows "List dir s = (Inr (listing dir (rows s)), s)
       \<and> (dir \<noteq> ''.'' \<longrightarrow> List_b dir s = (Inr (listing dir (rows s)), s))"
proof -
  have a: "filter (\<lambda>r. \<not> c_deleted r
                        \<and> (if dir = [] then \<not> like ''%/%'' (c_remote r)
                            else like (dir @ ''/%'') (c_remote r) \<and> Dir (c_remote r) = dir))
             (rows s)
           = filter (\<lambda>r. \<not> c_deleted r \<and> one_level_under dir (c_remote r)) (rows s)"
    using wf by (intro filter_cong) (auto simp: one_level_under_def like_has_slash scope_iff)
  have b: "dir \<noteq> ''.'' \<Longrightarrow>
           filter (\<lambda>r. \<not> c_deleted r
                        \<and> (if dir = [] then \<not> like ''%/%'' (c_remote r)
                            else like (Join dir ''%'') (c_remote r) \<and> Dir (c_remote r) = dir))
             (rows s)
           = filter (\<lambda>r. \<not> c_deleted r \<and> one_level_under dir (c_remote r)) (rows s)"
    using wf by (intro filter_cong) (auto simp: one_level_under_def like_has_slash scope_b_iff)
  from a b show ?thesis
    by (simp add: List_eq [OF quiet] List_b_eq [OF quiet] listing_def)
qed

theorem List_one_level_witness:
  "list_all (\<lambda>r. well_formed (c_remote r)) (rows s_abc)
   \<and> faults s_abc = []
   \<and> List ''a'' s_abc = (Inr [NewDir ''a/b'' (Time 1 0)], s_abc)
   \<and> List ''a/b'' s_abc = (Inr [Obj (scan (file_row ''a/b/c'' 3 100 ''h1''))], s_abc)
   \<and> List [] s_abc = (Inr [NewDir ''a'' (Time 1 0)], s_abc)
   \<and> List_b ''a'' s_abc = (Inr [NewDir ''a/b'' (Time 1 0)], s_abc)
   \<and> List_b ''a/b'' s_abc = (Inr [Obj (scan (file_row ''a/b/c'' 3 100 ''h1''))], s_abc)
   \<and> List_b [] s_abc = (Inr [NewDir ''a'' (Time 1 0)], s_abc)"
proof -
  have wf: "\<forall>r \<in> set (rows s_abc). well_formed (c_remote r)"
    by code_simp
  have wf': "list_all (\<lambda>r. well_formed (c_remote r)) (rows s_abc)"
    by code_simp
  have quiet: "faults s_abc = []"
    by code_simp
  have a: "listing ''a'' (rows s_abc) = [NewDir ''a/b'' (Time 1 0)]"
    by code_simp
  have ab: "listing ''a/b'' (rows s_abc) = [Obj (scan (file_row ''a/b/c'' 3 100 ''h1''))]"
    by code_simp
  have top: "listing [] (rows s_abc) = [NewDir ''a'' (Time 1 0)]"
    by code_simp
  from List_one_level [OF wf quiet, of "''a''"] List_one_level [OF wf quiet, of "''a/b''"]
       List_one_level [OF wf quiet, of "[]"] wf' quiet a ab top
  show ?thesis by simp
qed

text \<open>
  The claim as it stands, for every state of the table and every directory, fails in
  two places. The pattern of the query is a LIKE pattern, so \<^verbatim>\<open>List("a_")\<close> returns
  the row \<^verbatim>\<open>ab/../a_/x\<close>, whose cleaned parent is \<^verbatim>\<open>a_\<close> and which the prefix
  \<^verbatim>\<open>a_/\<close> does not start. And \<^verbatim>\<open>List(".")\<close> of \<^verbatim>\<open>virtualfs.go\<close>, whose pattern
  \<^verbatim>\<open>filepath.Join(".", "%")\<close> is \<^verbatim>\<open>%\<close>, returns the top-level rows.
\<close>

theorem List_one_level_counterexample:
  "fst (List ''a_'' s_odd) = Inr [Obj (scan (file_row ''ab/../a_/x'' 3 100 ''h1''))]
   \<and> listing ''a_'' (rows s_odd) = []
   \<and> \<not> prefix ''a_/'' ''ab/../a_/x''
   \<and> fst (List_b ''.'' s_abc) = Inr [NewDir ''a'' (Time 1 0)]
   \<and> listing ''.'' (rows s_abc) = []"
  by code_simp

section \<open>The emptiness test of \<^verbatim>\<open>Rmdir\<close>\<close>

lemma Rmdir_b_canonical:
  assumes "canonical dir"
  shows "Rmdir_b dir s = Rmdir dir s"
  unfolding Rmdir_b_def Rmdir_def Join_percent [OF assms] by (rule refl)

lemma count_positive: "filter P xs = [] \<longleftrightarrow> \<not> list_ex P xs"
  by (simp add: filter_empty_conv list_ex_iff)

lemma live_under_match: "live_under dir rs \<Longrightarrow> live_match dir rs"
proof -
  assume "live_under dir rs"
  then obtain r where r: "r \<in> set rs" "\<not> c_deleted r" "prefix (dir @ ''/'') (c_remote r)"
    by (auto simp: live_under_def list_ex_iff)
  from r(3) have "c_remote r \<noteq> dir" by (auto simp: prefix_def)
  with r like_of_prefix [OF r(3)] show ?thesis
    by (auto simp: live_match_def list_ex_iff)
qed

lemma Rmdir_missing:
  "os_Remove (tree s) (fullPath s dir) = Inl ENOENT \<Longrightarrow> Rmdir dir s = (Inl ErrorDirNotFound, s)"
  by (simp add: Rmdir_def)

lemma Rmdir_os_error:
  "os_Remove (tree s) (fullPath s dir) = Inl e \<Longrightarrow> e \<noteq> ENOENT \<Longrightarrow>
     Rmdir dir s = (Inl (PathError e), s)"
  by (simp add: Rmdir_def)

lemma Rmdir_counted:
  assumes "os_Remove (tree s) (fullPath s dir) = Inr t1" "faults s = []"
  shows "Rmdir dir s
         = (if live_match dir (rows s) then (Inl DirectoryNotEmpty, s\<lparr>tree := t1\<rparr>)
            else (Inr (), s\<lparr>tree := t1,
                             rows := filter (\<lambda>r. \<not> (c_remote r = dir \<and> c_is_dir r)) (rows s)\<rparr>))"
  using assms
  by (simp add: Rmdir_def db_call_no_faults live_match_def count_positive)

lemma like_Join_clean:
  assumes pre: "prefix (dir @ ''/'') p" and idem: "dir = [] \<or> Clean dir = dir"
  shows "like (Join dir ''%'') p"
proof (cases "dir = []")
  case True
  have "Clean ''%'' = ''%''" by code_simp
  with True show ?thesis by (simp add: Join_def like_percent_all)
next
  case ne: False
  with idem have idem': "Clean dir = dir" by simp
  have j: "Join dir ''%'' = Clean (dir @ ''/%'')" using ne by (simp add: Join_def)
  from pre obtain rest where p: "p = dir @ ''/'' @ rest" by (auto simp: prefix_def)
  from Clean_percent [OF ne] consider
      (all) "Clean (dir @ ''/%'') = ''%''"
    | (root) "hd dir = CHR ''/''" "Clean (dir @ ''/%'') = ''/%''"
    | (lit) "Clean (dir @ ''/%'') = Clean dir @ ''/%''"
    by blast
  then show ?thesis
  proof cases
    case all
    with j show ?thesis by (simp add: like_percent_all)
  next
    case root
    with ne obtain d' where "dir = CHR ''/'' # d'" by (cases dir) auto
    with p have "p = CHR ''/'' # (d' @ ''/'' @ rest)" by simp
    then have "like ''/%'' p" by (simp add: like_slash_percent)
    with root j show ?thesis by simp
  next
    case lit
    with j idem' like_of_prefix [OF pre] show ?thesis by simp
  qed
qed

lemma live_under_match_b:
  assumes "live_under dir rs" "dir = [] \<or> Clean dir = dir"
  shows "live_match_b dir rs"
proof -
  from assms(1) obtain r where r: "r \<in> set rs" "\<not> c_deleted r" "prefix (dir @ ''/'') (c_remote r)"
    by (auto simp: live_under_def list_ex_iff)
  from r(3) have "c_remote r \<noteq> dir" by (auto simp: prefix_def)
  with r like_Join_clean [OF r(3) assms(2)] show ?thesis
    by (auto simp: live_match_b_def list_ex_iff)
qed

lemma Rmdir_b_missing:
  "os_Remove (tree s) (fullPath s dir) = Inl ENOENT \<Longrightarrow> Rmdir_b dir s = (Inl ErrorDirNotFound, s)"
  by (simp add: Rmdir_b_def)

lemma Rmdir_b_os_error:
  "os_Remove (tree s) (fullPath s dir) = Inl e \<Longrightarrow> e \<noteq> ENOENT \<Longrightarrow>
     Rmdir_b dir s = (Inl (PathError e), s)"
  by (simp add: Rmdir_b_def)

lemma Rmdir_b_counted:
  assumes "os_Remove (tree s) (fullPath s dir) = Inr t1" "faults s = []"
  shows "Rmdir_b dir s
         = (if live_match_b dir (rows s) then (Inl DirectoryNotEmpty, s\<lparr>tree := t1\<rparr>)
            else (Inr (), s\<lparr>tree := t1,
                             rows := filter (\<lambda>r. \<not> (c_remote r = dir \<and> c_is_dir r)) (rows s)\<rparr>))"
  using assms
  by (simp add: Rmdir_b_def db_call_no_faults live_match_b_def count_positive)

text \<open>
  Claim C8, as amended. On a store that has been opened, for every directory path and in
  both files: when the directory is missing in the content tree, \<^verbatim>\<open>Rmdir\<close> returns
  \<^verbatim>\<open>ErrorDirNotFound\<close>; when the content tree refuses to remove it, the error of
  \<^verbatim>\<open>os.Remove\<close>; the state is unchanged in both cases. When the directory has been
  removed from the content tree and the statements of the store do not fail,
  \<^verbatim>\<open>Rmdir\<close> fails with "directory not empty" if a record that is not deleted lies
  strictly under the prefix of the directory (in \<^verbatim>\<open>virtualfs.go\<close>: of a directory
  path that is empty or clean); and if no live row other than the directory's matches the
  pattern of the query, it succeeds and the row of the directory is deleted from the
  table.
\<close>

theorem Rmdir_gate:
  assumes "opened s"
  shows "(os_Remove (tree s) (fullPath s dir) = Inl ENOENT
            \<longrightarrow> Rmdir dir s = (Inl ErrorDirNotFound, s)
                \<and> Rmdir_b dir s = (Inl ErrorDirNotFound, s))
       \<and> (\<forall>e. os_Remove (tree s) (fullPath s dir) = Inl e \<and> e \<noteq> ENOENT
              \<longrightarrow> Rmdir dir s = (Inl (PathError e), s)
                  \<and> Rmdir_b dir s = (Inl (PathError e), s))
       \<and> (\<forall>t1. os_Remove (tree s) (fullPath s dir) = Inr t1 \<and> faults s = []
              \<longrightarrow> (live_under dir (rows s)
                     \<longrightarrow> Rmdir dir s = (Inl DirectoryNotEmpty, s\<lparr>tree := t1\<rparr>))
                 \<and> (live_under dir (rows s) \<and> (dir = [] \<or> Clean dir = dir)
                     \<longrightarrow> Rmdir_b dir s = (Inl DirectoryNotEmpty, s\<lparr>tree := t1\<rparr>))
                 \<and> (\<not> live_match dir (rows s)
                     \<longrightarrow> Rmdir dir s
                         = (Inr (), s\<lparr>tree := t1,
                                       rows := filter (\<lambda>r. \<not> (c_remote r = dir \<and> c_is_dir r))
                                                 (rows s)\<rparr>))
                 \<and> (\<not> live_match_b dir (rows s)
                     \<longrightarrow> Rmdir_b dir s
                         = (Inr (), s\<lparr>tree := t1,
                                       rows := filter (\<lambda>r. \<not> (c_remote r = dir \<and> c_is_dir r))
                                                 (rows s)\<rparr>)))"
proof -
  have a: "os_Remove (tree s) (fullPath s dir) = Inl ENOENT
      \<longrightarrow> Rmdir dir s = (Inl ErrorDirNotFound, s) \<and> Rmdir_b dir s = (Inl ErrorDirNotFound, s)"
    using Rmdir_missing Rmdir_b_missing by blast
  have b: "\<forall>e. os_Remove (tree s) (fullPath s dir) = Inl e \<and> e \<noteq> ENOENT
        \<longrightarrow> Rmdir dir s = (Inl (PathError e), s) \<and> Rmdir_b dir s = (Inl (PathError e), s)"
    using Rmdir_os_error Rmdir_b_os_error by blast
  have c: "\<forall>t1. os_Remove (tree s) (fullPath s dir) = Inr t1 \<and> faults s = []
        \<longrightarrow> (live_under dir (rows s)
               \<longrightarrow> Rmdir dir s = (Inl DirectoryNotEmpty, s\<lparr>tree := t1\<rparr>))
           \<and> (live_under dir (rows s) \<and> (dir = [] \<or> Clean dir = dir)
               \<longrightarrow> Rmdir_b dir s = (Inl DirectoryNotEmpty, s\<lparr>tree := t1\<rparr>))
           \<and> (\<not> live_match dir (rows s)
               \<longrightarrow> Rmdir dir s
                   = (Inr (), s\<lparr>tree := t1,
                                 rows := filter (\<lambda>r. \<not> (c_remote r = dir \<and> c_is_dir r))
                                           (rows s)\<rparr>))
           \<and> (\<not> live_match_b dir (rows s)
               \<longrightarrow> Rmdir_b dir s
                   = (Inr (), s\<lparr>tree := t1,
                                 rows := filter (\<lambda>r. \<not> (c_remote r = dir \<and> c_is_dir r))
                                           (rows s)\<rparr>))"
  proof (intro allI impI, elim conjE)
    fix t1
    assume rm: "os_Remove (tree s) (fullPath s dir) = Inr t1" and q: "faults s = []"
    note r = Rmdir_counted [OF rm q] and rb = Rmdir_b_counted [OF rm q]
    show "(live_under dir (rows s)
               \<longrightarrow> Rmdir dir s = (Inl DirectoryNotEmpty, s\<lparr>tree := t1\<rparr>))
           \<and> (live_under dir (rows s) \<and> (dir = [] \<or> Clean dir = dir)
               \<longrightarrow> Rmdir_b dir s = (Inl DirectoryNotEmpty, s\<lparr>tree := t1\<rparr>))
           \<and> (\<not> live_match dir (rows s)
               \<longrightarrow> Rmdir dir s
                   = (Inr (), s\<lparr>tree := t1,
                                 rows := filter (\<lambda>r. \<not> (c_remote r = dir \<and> c_is_dir r))
                                           (rows s)\<rparr>))
           \<and> (\<not> live_match_b dir (rows s)
               \<longrightarrow> Rmdir_b dir s
                   = (Inr (), s\<lparr>tree := t1,
                                 rows := filter (\<lambda>r. \<not> (c_remote r = dir \<and> c_is_dir r))
                                           (rows s)\<rparr>))"
      using r rb live_under_match [of dir "rows s"] live_under_match_b [of dir "rows s"]
      by auto
  qed
  from a b c show ?thesis by blast
qed

theorem Rmdir_gate_witness:
  "opened (with_db s_gone)
   \<and> os_Remove (tree (with_db s_gone)) (fullPath (with_db s_gone) ''d'') = Inl ENOENT
   \<and> Rmdir ''d'' (with_db s_gone) = (Inl ErrorDirNotFound, with_db s_gone)
   \<and> Rmdir_b ''d'' (with_db s_gone) = (Inl ErrorDirNotFound, with_db s_gone)
   \<and> opened (with_db s_blocked)
   \<and> os_Remove (tree (with_db s_blocked)) (fullPath (with_db s_blocked) ''d/e'') = Inl ENOTDIR
   \<and> Rmdir ''d/e'' (with_db s_blocked) = (Inl (PathError ENOTDIR), with_db s_blocked)
   \<and> Rmdir_b ''d/e'' (with_db s_blocked) = (Inl (PathError ENOTDIR), with_db s_blocked)
   \<and> opened (with_db s_fresh)
   \<and> os_Remove (tree (with_db s_fresh)) (fullPath (with_db s_fresh) []) = Inl ENOTEMPTY
   \<and> Rmdir [] (with_db s_fresh) = (Inl (PathError ENOTEMPTY), with_db s_fresh)
   \<and> Rmdir_b [] (with_db s_fresh) = (Inl (PathError ENOTEMPTY), with_db s_fresh)
   \<and> opened (with_db s_ingested)
   \<and> os_Remove (tree (with_db s_ingested)) (fullPath (with_db s_ingested) ''d'')
       = Inr [(''root'', Directory), (''root/virtualfs.db'', File [])]
   \<and> faults (with_db s_ingested) = []
   \<and> live_under ''d'' (rows (with_db s_ingested))
   \<and> Clean ''d'' = ''d''
   \<and> Rmdir ''d'' (with_db s_ingested)
       = (Inl DirectoryNotEmpty,
          s_ingested\<lparr>tree := [(''root'', Directory), (''root/virtualfs.db'', File [])]\<rparr>)
   \<and> Rmdir_b ''d'' (with_db s_ingested)
       = (Inl DirectoryNotEmpty,
          s_ingested\<lparr>tree := [(''root'', Directory), (''root/virtualfs.db'', File [])]\<rparr>)
   \<and> opened (with_db s_empty_dir)
   \<and> os_Remove (tree (with_db s_empty_dir)) (fullPath (with_db s_empty_dir) ''d'')
       = Inr [(''root'', Directory), (''root/virtualfs.db'', File [])]
   \<and> faults (with_db s_empty_dir) = []
   \<and> \<not> live_match ''d'' (rows (with_db s_empty_dir))
   \<and> \<not> live_match_b ''d'' (rows (with_db s_empty_dir))
   \<and> Rmdir ''d'' (with_db s_empty_dir)
       = (Inr (), s_empty_dir\<lparr>tree := [(''root'', Directory), (''root/virtualfs.db'', File [])],
                              rows := []\<rparr>)
   \<and> Rmdir_b ''d'' (with_db s_empty_dir)
       = (Inr (), s_empty_dir\<lparr>tree := [(''root'', Directory), (''root/virtualfs.db'', File [])],
                              rows := []\<rparr>)"
proof -
  have o0: "opened (with_db s_gone)"
    by code_simp
  have rm0: "os_Remove (tree (with_db s_gone)) (fullPath (with_db s_gone) ''d'') = Inl ENOENT"
    by code_simp
  have o3: "opened (with_db s_blocked)"
    by code_simp
  have rm3: "os_Remove (tree (with_db s_blocked)) (fullPath (with_db s_blocked) ''d/e'')
             = Inl ENOTDIR"
    by code_simp
  have ne: "ENOTDIR \<noteq> ENOENT" "ENOTEMPTY \<noteq> ENOENT"
    by simp_all
  have o4: "opened (with_db s_fresh)"
    by code_simp
  have rm4: "os_Remove (tree (with_db s_fresh)) (fullPath (with_db s_fresh) []) = Inl ENOTEMPTY"
    by code_simp
  have o1: "opened (with_db s_ingested)"
    by code_simp
  have rm1: "os_Remove (tree (with_db s_ingested)) (fullPath (with_db s_ingested) ''d'')
             = Inr [(''root'', Directory), (''root/virtualfs.db'', File [])]"
    by code_simp
  have q1: "faults (with_db s_ingested) = []"
    by code_simp
  have live: "live_under ''d'' (rows (with_db s_ingested))"
    by code_simp
  have cl: "Clean ''d'' = ''d''"
    by code_simp
  have st1: "with_db s_ingested\<lparr>tree := [(''root'', Directory), (''root/virtualfs.db'', File [])]\<rparr>
             = s_ingested\<lparr>tree := [(''root'', Directory), (''root/virtualfs.db'', File [])]\<rparr>"
    by (simp add: with_db_def)
  have o2: "opened (with_db s_empty_dir)"
    by code_simp
  have rm2: "os_Remove (tree (with_db s_empty_dir)) (fullPath (with_db s_empty_dir) ''d'')
             = Inr [(''root'', Directory), (''root/virtualfs.db'', File [])]"
    by code_simp
  have q2: "faults (with_db s_empty_dir) = []"
    by code_simp
  have none: "\<not> live_match ''d'' (rows (with_db s_empty_dir))"
    by code_simp
  have none_b: "\<not> live_match_b ''d'' (rows (with_db s_empty_dir))"
    by code_simp
  have left: "filter (\<lambda>r. \<not> (c_remote r = ''d'' \<and> c_is_dir r)) (rows (with_db s_empty_dir)) = []"
    by code_simp
  have st2: "with_db s_empty_dir\<lparr>tree := [(''root'', Directory), (''root/virtualfs.db'', File [])],
                                  rows := []\<rparr>
             = s_empty_dir\<lparr>tree := [(''root'', Directory), (''root/virtualfs.db'', File [])],
                            rows := []\<rparr>"
    by (simp add: with_db_def)
  from Rmdir_gate [OF o0, of "''d''"] Rmdir_gate [OF o3, of "''d/e''"]
       Rmdir_gate [OF o4, of "[]"]
       Rmdir_gate [OF o1, of "''d''"] Rmdir_gate [OF o2, of "''d''"]
       o0 rm0 o3 rm3 ne o4 rm4 o1 rm1 q1 live cl st1 o2 rm2 q2 none none_b left st2
  show ?thesis by simp
qed

text \<open>
  The claim as it stands fails in four ways. Where the content tree decides first: with a
  live record under \<^verbatim>\<open>d\<close> and no directory \<^verbatim>\<open>d\<close> in the content tree,
  \<^verbatim>\<open>Rmdir\<close> returns \<^verbatim>\<open>ErrorDirNotFound\<close>, not "directory not empty"; with
  every record under \<^verbatim>\<open>d\<close> deleted and the marker file of one of them in the
  directory, \<^verbatim>\<open>Rmdir\<close> does not succeed: \<^verbatim>\<open>os.Remove\<close> refuses the
  directory, and its row stays. Where the pattern matches more than the prefix: with no
  record under \<^verbatim>\<open>d\<close> and a live one under \<^verbatim>\<open>D\<close>, and with no record under
  \<^verbatim>\<open>a_\<close> and a live one under a name of \<^verbatim>\<open>a\<close> and one more character,
  \<^verbatim>\<open>Rmdir\<close> fails with "directory not empty". Where \<^verbatim>\<open>virtualfs.go\<close>
  cleans the pattern: with a live record stored under \<^verbatim>\<open>x/../a/\<close>,
  \<^verbatim>\<open>Rmdir\<close> of \<^verbatim>\<open>x/../a\<close> succeeds there.
\<close>

theorem Rmdir_gate_counterexample:
  "live_under ''d'' (rows (with_db s_gone))
   \<and> Rmdir ''d'' (with_db s_gone) = (Inl ErrorDirNotFound, with_db s_gone)
   \<and> Rmdir_b ''d'' (with_db s_gone) = (Inl ErrorDirNotFound, with_db s_gone)
   \<and> \<not> live_under ''d'' (rows (with_db s_tombstoned))
   \<and> Rmdir ''d'' (with_db s_tombstoned) = (Inl (PathError ENOTEMPTY), with_db s_tombstoned)
   \<and> Rmdir_b ''d'' (with_db s_tombstoned) = (Inl (PathError ENOTEMPTY), with_db s_tombstoned)
   \<and> \<not> live_under ''d'' (rows (with_db s_capital))
   \<and> Rmdir ''d'' (with_db s_capital)
       = (Inl DirectoryNotEmpty,
          s_capital\<lparr>tree := [(''root'', Directory), (''root/D'', Directory),
                              (''root/virtualfs.db'', File [])]\<rparr>)
   \<and> Rmdir_b ''d'' (with_db s_capital)
       = (Inl DirectoryNotEmpty,
          s_capital\<lparr>tree := [(''root'', Directory), (''root/D'', Directory),
                              (''root/virtualfs.db'', File [])]\<rparr>)
   \<and> \<not> live_under ''a_'' (rows (with_db s_accent))
   \<and> Rmdir ''a_'' (with_db s_accent)
       = (Inl DirectoryNotEmpty,
          s_accent\<lparr>tree := [(''root'', Directory), (''root/virtualfs.db'', File [])]\<rparr>)
   \<and> Rmdir_b ''a_'' (with_db s_accent)
       = (Inl DirectoryNotEmpty,
          s_accent\<lparr>tree := [(''root'', Directory), (''root/virtualfs.db'', File [])]\<rparr>)
   \<and> live_under ''x/../a'' (rows (with_db s_unclean))
   \<and> Rmdir ''x/../a'' (with_db s_unclean)
       = (Inl DirectoryNotEmpty,
          s_unclean\<lparr>tree := [(''root'', Directory), (''root/virtualfs.db'', File [])]\<rparr>)
   \<and> Rmdir_b ''x/../a'' (with_db s_unclean)
       = (Inr (), s_unclean\<lparr>tree := [(''root'', Directory), (''root/virtualfs.db'', File [])]\<rparr>)"
  by code_simp

section \<open>Writing a record\<close>

lemma select_remote_filter_other: "select_remote p (filter (\<lambda>x. c_remote x \<noteq> p) rs) = None"
  by (induction rs) (auto simp: select_remote_def)

lemma select_remote_replace:
  "c_remote r = p \<Longrightarrow> select_remote p (insert_or_replace r rs) = Some r"
  by (simp add: insert_or_replace_def select_remote_append select_remote_filter_other)
     (simp add: select_remote_def)

lemma insert_dirs_quiet:
  "faults s = [] \<Longrightarrow> \<exists>rs'. insert_dirs now parts cur rs s = (Inr rs', s)"
  by (induction parts arbitrary: cur rs) (auto simp: db_call_no_faults Let_def)

lemma ensureDirectoryStructure_quiet:
  assumes "faults s = []"
  shows "\<exists>rs'. ensureDirectoryStructure now p s = (Inr (), s\<lparr>rows := rs'\<rparr>)"
proof -
  from insert_dirs_quiet [OF assms] obtain rs' where
    "insert_dirs now (Split (Dir p)) [] (rows s) s = (Inr rs', s)" by blast
  with assms show ?thesis
    by (auto simp: ensureDirectoryStructure_def db_call_no_faults)
qed

lemma insert_dirs_b_quiet:
  "faults s = [] \<Longrightarrow> \<exists>rs'. insert_dirs_b now parts cur s = (Inr (), s\<lparr>rows := rs'\<rparr>)"
proof (induction parts arbitrary: cur s)
  case Nil
  have "s = s\<lparr>rows := rows s\<rparr>" by simp
  then show ?case by (metis insert_dirs_b.simps(1))
next
  case (Cons part parts)
  show ?case
  proof (cases "part = []")
    case True
    with Cons show ?thesis by simp
  next
    case False
    let ?s1 = "s\<lparr>rows := insert_or_ignore (dir_row (Join cur part) now) (rows s)\<rparr>"
    have "faults ?s1 = []" using Cons.prems by simp
    from Cons.IH [OF this, of "Join cur part"] obtain rs' where
      "insert_dirs_b now parts (Join cur part) ?s1 = (Inr (), ?s1\<lparr>rows := rs'\<rparr>)" by blast
    with False Cons.prems show ?thesis
      by (auto simp: db_call_no_faults)
  qed
qed

lemma ensureDirectoryStructure_b_quiet:
  "faults s = [] \<Longrightarrow> \<exists>rs'. ensureDirectoryStructure_b now p s = (Inr (), s\<lparr>rows := rs'\<rparr>)"
  unfolding ensureDirectoryStructure_b_def by (rule insert_dirs_b_quiet)

lemma Put_write_result:
  assumes quiet: "faults s = []" and ok: "Put_write md5 now inp src s = (Inr o', s')"
  shows "faults s' = []
       \<and> RootDirectory s' = RootDirectory s
       \<and> (\<exists>rs1. rows s' = insert_or_replace (written_row (src_Remote src) inp src (md5 (rd_bytes inp))) rs1)
       \<and> o' = scan (written_row (src_Remote src) inp src (md5 (rd_bytes inp)))\<lparr>modTime := src_ModTime src\<rparr>
       \<and> map_of (tree s') (fullPath s (src_Remote src)) = Some (File (rd_bytes inp))"
proof -
  from ensureDirectoryStructure_quiet [OF quiet] obtain rs1 where
    e: "ensureDirectoryStructure now (src_Remote src) s = (Inr (), s\<lparr>rows := rs1\<rparr>)" by blast
  from ok show ?thesis
    unfolding Put_write_def
    by (auto simp: e quiet Let_def db_call_no_faults fullPath_def written_row_def scan_def
          write_file_def update_conv'
        split: sum.splits if_splits)
qed

lemma Put_b_result:
  assumes quiet: "faults s = []" and ok: "Put_b now inp src s = (Inr o', s')"
  shows "faults s' = []
       \<and> RootDirectory s' = RootDirectory s
       \<and> (\<exists>rs1. rows s' = insert_or_replace (written_row (src_Remote src) inp src (reported_hash src)) rs1)
       \<and> o' = scan (written_row (src_Remote src) inp src (reported_hash src))\<lparr>modTime := src_ModTime src\<rparr>
       \<and> map_of (tree s') (fullPath s (src_Remote src)) = Some (File (rd_bytes inp))"
proof -
  from ensureDirectoryStructure_b_quiet [OF quiet] obtain rs1 where
    e: "ensureDirectoryStructure_b now (src_Remote src) s = (Inr (), s\<lparr>rows := rs1\<rparr>)" by blast
  from ok show ?thesis
    unfolding Put_b_def
    by (auto simp: e quiet Let_def db_call_no_faults fullPath_def written_row_def scan_def
          write_file_def update_conv' reported_hash_def
        split: sum.splits if_splits)
qed


lemma NewObject_live:
  assumes "faults s = []" "select_remote p (rows s) = Some r" "\<not> c_deleted r" "\<not> c_is_dir r"
    "c_remote r = p"
  shows "NewObject p s = (Inr (scan r), s)"
  using assms by (simp add: NewObject_def db_call_no_faults scan_def)


text \<open>Every canonical path lies one level under a directory: the top, or its parent.\<close>

lemma canonical_one_level_under:
  assumes "canonical p"
  shows "one_level_under (if CHR ''/'' \<in> set p then Dir p else []) p"
proof (cases "CHR ''/'' \<in> set p")
  case False
  then show ?thesis by (simp add: one_level_under_def)
next
  case True
  then obtain a b where p: "p = a @ CHR ''/'' # b" and b: "CHR ''/'' \<notin> set b"
    using split_last_slash by blast
  with assms have d: "Dir p = a" and a: "canonical a"
    using Dir_canonical canonical_split by blast+
  from a have "a \<noteq> []" by (rule canonical_not_Nil)
  with True d p show ?thesis by (simp add: one_level_under_def)
qed


lemma Put_b_runs:
  assumes quiet: "faults s = []"
      and reads: "\<not> rd_err inp"
      and dirs: "os_MkdirAll (tree s) (Dir (fullPath s (src_Remote src))) = Inr t2"
      and made: "os_Create t2 (fullPath s (src_Remote src)) = Inr t3"
  shows "\<exists>rs1. Put_b now inp src s
               = (Inr (scan (written_row (src_Remote src) inp src (reported_hash src))
                         \<lparr>modTime := src_ModTime src\<rparr>),
                  s\<lparr>rows := insert_or_replace
                               (written_row (src_Remote src) inp src (reported_hash src)) rs1,
                    tree := write_file t3 (fullPath s (src_Remote src)) (rd_bytes inp)\<rparr>)"
proof -
  from ensureDirectoryStructure_b_quiet [OF quiet] obtain rs1 where
    e: "ensureDirectoryStructure_b now (src_Remote src) s = (Inr (), s\<lparr>rows := rs1\<rparr>)" by blast
  have "Put_b now inp src s
               = (Inr (scan (written_row (src_Remote src) inp src (reported_hash src))
                         \<lparr>modTime := src_ModTime src\<rparr>),
                  s\<lparr>rows := insert_or_replace
                               (written_row (src_Remote src) inp src (reported_hash src)) rs1,
                    tree := write_file t3 (fullPath s (src_Remote src)) (rd_bytes inp)\<rparr>)"
    unfolding Put_b_def
    using dirs made reads quiet
    by (simp add: e Let_def db_call_no_faults fullPath_def written_row_def scan_def
          reported_hash_def)
  then show ?thesis by blast
qed




section \<open>What \<^verbatim>\<open>Put\<close> and \<^verbatim>\<open>Update\<close> of \<^verbatim>\<open>part_000\<close> do meet\<close>

lemma select_remote_Some: "select_remote p rs = Some r \<Longrightarrow> c_remote r = p \<and> r \<in> set rs"
  by (auto simp: select_remote_def find_Some_iff)

text \<open>
  The text gives the time back when the time is a whole second, the offset of its location
  whole minutes, and its wall clock in the years 0 to 9999.
\<close>

lemma Parse_Format:
  assumes "nsec t = 0" and "zone t mod 60 = 0"
      and "year_0 \<le> unix_sec t + zone t" and "unix_sec t + zone t < year_10000"
  shows "Parse (Format t) = t"
proof -
  have "60 * minutes (zone t) = zone t"
    using assms(2) by (auto simp: minutes_def zmod_zminus1_eq_if)
  with assms show ?thesis by (cases t) (simp add: Format_def)
qed

text \<open>
  \<^verbatim>\<open>Put\<close> of \<^verbatim>\<open>part_000\<close> on a live file record with the size, the modification
  time and (where the source has MD5) the hash of the candidate: nothing is written and
  the stored record is returned.
\<close>

lemma Put_skips_identical:
  assumes quiet: "faults s = []"
      and held: "select_remote (src_Remote src) (rows s) = Some r"
      and live: "\<not> c_deleted r" "\<not> c_is_dir r"
      and same: "src_Size src = c_size r" "Equal (src_ModTime src) (Parse (c_mod_time r))"
                "src_MD5 src \<longrightarrow> src_Hash src = c_hash r"
  shows "Put md5 now inp src s = (Inr (scan r), s)"
proof -
  from select_remote_Some [OF held] have key: "c_remote r = src_Remote src" by simp
  from NewObject_live [OF quiet held live key] same live show ?thesis
    by (auto simp: Put_def Size_def scan_def)
qed

text \<open>A candidate that differs in one of the three takes the write path.\<close>

lemma Put_detects_change:
  assumes quiet: "faults s = []"
      and held: "select_remote (src_Remote src) (rows s) = Some r"
      and live: "\<not> c_deleted r" "\<not> c_is_dir r"
      and differs: "src_Size src \<noteq> c_size r \<or> \<not> Equal (src_ModTime src) (Parse (c_mod_time r))
                    \<or> (src_MD5 src \<and> src_Hash src \<noteq> c_hash r)"
  shows "Put md5 now inp src s = Put_write md5 now inp src s"
proof -
  from select_remote_Some [OF held] have key: "c_remote r = src_Remote src" by simp
  from NewObject_live [OF quiet held live key] differs live show ?thesis
    by (auto simp: Put_def Size_def scan_def)
qed

lemma Put_cases:
  assumes quiet: "faults s = []"
  shows "Put md5 now inp src s = Put_write md5 now inp src s
         \<or> (\<exists>r. select_remote (src_Remote src) (rows s) = Some r \<and> \<not> c_deleted r \<and> \<not> c_is_dir r
                \<and> src_Size src = c_size r \<and> Equal (src_ModTime src) (Parse (c_mod_time r))
                \<and> (src_MD5 src \<longrightarrow> src_Hash src = c_hash r)
                \<and> Put md5 now inp src s = (Inr (scan r), s))"
proof (cases "select_remote (src_Remote src) (rows s)")
  case None
  with quiet show ?thesis by (simp add: Put_def NewObject_def db_call_no_faults)
next
  case (Some r)
  from select_remote_Some [OF Some] have key: "c_remote r = src_Remote src" by simp
  show ?thesis
  proof (cases "c_deleted r \<or> c_is_dir r")
    case True
    with quiet Some show ?thesis by (auto simp: Put_def NewObject_def db_call_no_faults)
  next
    case False
    then have live: "\<not> c_deleted r" "\<not> c_is_dir r" by simp_all
    show ?thesis
    proof (cases "src_Size src \<noteq> c_size r \<or> \<not> Equal (src_ModTime src) (Parse (c_mod_time r))
                    \<or> (src_MD5 src \<and> src_Hash src \<noteq> c_hash r)")
      case True
      from Put_detects_change [OF quiet Some live True] show ?thesis by simp
    next
      case same: False
      then have "Put md5 now inp src s = (Inr (scan r), s)"
        using Put_skips_identical [OF quiet Some live] by blast
      with same Some live show ?thesis by blast
    qed
  qed
qed

text \<open>
  Putting the same candidate twice: when its modification time is one the stored text
  gives back (a whole second, an offset of whole minutes, a year from 0 to 9999) and its
  size and hash are those of the content, the second call is a skip that returns the
  object of the first, whatever its reader holds.
\<close>

lemma Put_twice_whole_second:
  assumes quiet: "faults s = []"
      and whole: "nsec (src_ModTime src) = 0" "zone (src_ModTime src) mod 60 = 0"
        "year_0 \<le> unix_sec (src_ModTime src) + zone (src_ModTime src)"
        "unix_sec (src_ModTime src) + zone (src_ModTime src) < year_10000"
      and size: "src_Size src = int (length (rd_bytes inp))"
      and digest: "src_MD5 src \<longrightarrow> src_Hash src = md5 (rd_bytes inp)"
      and first: "Put md5 now inp src s = (Inr o1, s1)"
  shows "Put md5 now' inp' src s1 = (Inr o1, s1)"
proof -
  from Put_cases [OF quiet, of md5 now inp src] consider
      (wrote) "Put md5 now inp src s = Put_write md5 now inp src s"
    | (skipped) r where "select_remote (src_Remote src) (rows s) = Some r" "\<not> c_deleted r"
        "\<not> c_is_dir r" "src_Size src = c_size r" "Equal (src_ModTime src) (Parse (c_mod_time r))"
        "src_MD5 src \<longrightarrow> src_Hash src = c_hash r" "Put md5 now inp src s = (Inr (scan r), s)"
    by blast
  then show ?thesis
  proof cases
    case wrote
    let ?w = "written_row (src_Remote src) inp src (md5 (rd_bytes inp))"
    from wrote first have "Put_write md5 now inp src s = (Inr o1, s1)" by simp
    from Put_write_result [OF quiet this] obtain rs1 where
      q1: "faults s1 = []" and rows1: "rows s1 = insert_or_replace ?w rs1"
      and o1: "o1 = scan ?w\<lparr>modTime := src_ModTime src\<rparr>" by blast
    have key: "c_remote ?w = src_Remote src" by (simp add: written_row_def)
    have sel: "select_remote (src_Remote src) (rows s1) = Some ?w"
      using rows1 select_remote_replace [OF key] by simp
    have t: "Parse (c_mod_time ?w) = src_ModTime src"
      using Parse_Format [OF whole] by (simp add: written_row_def)
    have "Put md5 now' inp' src s1 = (Inr (scan ?w), s1)"
      using size digest t
      by (intro Put_skips_identical [OF q1 sel]) (simp_all add: written_row_def Equal_def)
    moreover have "scan ?w = o1" using o1 t by (simp add: scan_def)
    ultimately show ?thesis by simp
  next
    case skipped
    with first have "s1 = s" "o1 = scan r" by simp_all
    with skipped Put_skips_identical [OF quiet skipped(1-6), of md5 now' inp'] show ?thesis by simp
  qed
qed

text \<open>
  The write path of \<^verbatim>\<open>Put\<close> and of \<^verbatim>\<open>Update\<close> in \<^verbatim>\<open>part_000\<close>: the hash
  in the row and in the object is the digest of the bytes that are in the file.
\<close>

lemma written_hash_is_digest:
  assumes quiet: "faults s = []"
      and wrote: "Put_write md5 now inp src s = (Inr o', s')"
  shows "hash o' = md5 (rd_bytes inp)
       \<and> select_remote (src_Remote src) (rows s')
           = Some (written_row (src_Remote src) inp src (md5 (rd_bytes inp)))
       \<and> map_of (tree s') (fullPath s (src_Remote src)) = Some (File (rd_bytes inp))"
proof -
  let ?w = "written_row (src_Remote src) inp src (md5 (rd_bytes inp))"
  from Put_write_result [OF quiet wrote] obtain rs1 where
    rows': "rows s' = insert_or_replace ?w rs1"
    and o': "o' = scan ?w\<lparr>modTime := src_ModTime src\<rparr>"
    and t: "map_of (tree s') (fullPath s (src_Remote src)) = Some (File (rd_bytes inp))" by blast
  have key: "c_remote ?w = src_Remote src" by (simp add: written_row_def)
  from rows' select_remote_replace [OF key] o' t show ?thesis
    by (simp add: scan_def written_row_def)
qed

lemma Update_hash_is_digest:
  assumes wrote: "Update md5 inp src o1 s = (Inr o', s')" and changed: "(o', s') \<noteq> (o1, s)"
  shows "hash o' = md5 (rd_bytes inp)
       \<and> map_of (tree s') (fullPath s (remote o1)) = Some (File (rd_bytes inp))"
  using assms unfolding Update_def
  by (auto simp: Let_def write_file_def update_conv' split: sum.splits if_splits prod.splits
           dest!: db_call_fields)

text \<open>
  \<^verbatim>\<open>ensureDirectoryStructure\<close> of \<^verbatim>\<open>part_000\<close> is atomic: on every error the
  table is as it was before the call.
\<close>

lemma ensureDirectoryStructure_atomic:
  assumes "ensureDirectoryStructure now p s = (Inl e, s')"
  shows "rows s' = rows s"
proof -
  obtain bad s1 where c1: "db_call s = (bad, s1)" by (cases "db_call s")
  note f1 = db_call_fields [OF c1]
  obtain r2 s2 where c2: "insert_dirs now (Split (Dir p)) [] (rows s1) s1 = (r2, s2)"
    by (cases "insert_dirs now (Split (Dir p)) [] (rows s1) s1")
  note f2 = insert_dirs_state [OF c2]
  obtain bad3 s3 where c3: "db_call s2 = (bad3, s3)" by (cases "db_call s2")
  note f3 = db_call_fields [OF c3]
  from assms c1 c2 c3 f1 f2 f3 show ?thesis
    by (auto simp: ensureDirectoryStructure_def split: if_splits sum.splits)
qed

section \<open>The table keeps well-formed paths\<close>

text \<open>
  When the driver hands \<^verbatim>\<open>Put\<close> a canonical path, the rows it leaves in the table,
  those of the ancestors included, have well-formed paths whatever the outcome of the
  call. \<^verbatim>\<open>Mkdir\<close> adds rows through the same \<^verbatim>\<open>ensureDirectoryStructure\<close>; the
  remaining operations rewrite or delete rows and add none.
\<close>

lemma canonical_name: "is_name e \<Longrightarrow> CHR ''/'' \<notin> set e \<Longrightarrow> canonical e"
  by (simp add: canonical_def Split_slash_free)

lemma Join_name:
  assumes "is_name e" "CHR ''/'' \<notin> set e" "cur = [] \<or> canonical cur"
  shows "canonical (Join cur e)"
proof (cases "cur = []")
  case True
  with assms have "Join cur e = Clean e" by (auto simp: Join_def is_name_def)
  with canonical_name [OF assms(1,2)] show ?thesis by (simp add: Clean_canonical)
next
  case False
  with assms have c: "canonical (cur @ CHR ''/'' # e)"
    using canonical_append canonical_name by blast
  from False have "Join cur e = Clean (cur @ CHR ''/'' # e)" by (simp add: Join_def)
  with c show ?thesis by (simp add: Clean_canonical)
qed

lemma wf_rows_insert:
  "wf_rows rs \<Longrightarrow> well_formed p \<Longrightarrow> wf_rows (insert_or_ignore (dir_row p now) rs)"
  by (auto simp: wf_rows_def insert_or_ignore_def dir_row_def split: option.splits)

lemma insert_dirs_wf:
  assumes "\<forall>e \<in> set parts. is_name e \<and> CHR ''/'' \<notin> set e" "cur = [] \<or> canonical cur" "wf_rows rs"
    "insert_dirs now parts cur rs s = (Inr rs', s')"
  shows "wf_rows rs'"
  using assms
proof (induction parts arbitrary: cur rs s)
  case Nil
  then show ?case by simp
next
  case (Cons part parts)
  from Cons.prems(1) have nm: "is_name part" "CHR ''/'' \<notin> set part" by simp_all
  then have ne: "part \<noteq> []" by (simp add: is_name_def)
  from Join_name [OF nm Cons.prems(2)] have c: "canonical (Join cur part)" .
  then have wf: "well_formed (Join cur part)" by (simp add: well_formed_def)
  obtain bad s1 where d: "db_call s = (bad, s1)" by (cases "db_call s")
  with Cons.prems(4) ne have
    "insert_dirs now parts (Join cur part) (insert_or_ignore (dir_row (Join cur part) now) rs) s1
     = (Inr rs', s')"
    by (auto simp: Let_def split: if_splits)
  from Cons.IH [OF _ _ _ this] Cons.prems(1) c wf_rows_insert [OF Cons.prems(3) wf]
  show ?case by simp
qed

lemma insert_dirs_b_wf:
  assumes "\<forall>e \<in> set parts. is_name e \<and> CHR ''/'' \<notin> set e" "cur = [] \<or> canonical cur"
    "wf_rows (rows s)" "insert_dirs_b now parts cur s = (res, s')"
  shows "wf_rows (rows s')"
  using assms
proof (induction parts arbitrary: cur s)
  case Nil
  then show ?case by simp
next
  case (Cons part parts)
  from Cons.prems(1) have nm: "is_name part" "CHR ''/'' \<notin> set part" by simp_all
  then have ne: "part \<noteq> []" by (simp add: is_name_def)
  from Join_name [OF nm Cons.prems(2)] have c: "canonical (Join cur part)" .
  then have wf: "well_formed (Join cur part)" by (simp add: well_formed_def)
  obtain bad s1 where d: "db_call s = (bad, s1)" by (cases "db_call s")
  note f = db_call_fields [OF d]
  show ?case
  proof (cases bad)
    case True
    with Cons.prems(3,4) ne d f show ?thesis by (auto simp: Let_def)
  next
    case False
    let ?s2 = "s1\<lparr>rows := insert_or_ignore (dir_row (Join cur part) now) (rows s1)\<rparr>"
    from False Cons.prems(4) ne d have "insert_dirs_b now parts (Join cur part) ?s2 = (res, s')"
      by (simp add: Let_def)
    moreover have "wf_rows (rows ?s2)" using wf_rows_insert [OF Cons.prems(3) wf] f by simp
    ultimately show ?thesis using Cons.IH [of "Join cur part" ?s2] Cons.prems(1) c by simp
  qed
qed

lemma parts_of_canonical:
  assumes "canonical p"
  shows "Split (Dir p) = [''.''] \<or> (\<forall>e \<in> set (Split (Dir p)). is_name e \<and> CHR ''/'' \<notin> set e)"
proof (cases "CHR ''/'' \<in> set p")
  case False
  then show ?thesis by (simp add: Dir_no_slash)
next
  case True
  then obtain a b where p: "p = a @ CHR ''/'' # b" and b: "CHR ''/'' \<notin> set b"
    using split_last_slash by blast
  with assms have "Dir p = a" "canonical a" using Dir_canonical canonical_split by blast+
  then show ?thesis using Split_no_slash by (auto simp: canonical_def list_all_iff)
qed

lemma Join_dot: "Join [] ''.'' = ''.''"
  by code_simp

lemma ensureDirectoryStructure_wf:
  assumes c: "canonical p" and wf: "wf_rows (rows s)"
    and run: "ensureDirectoryStructure now p s = (res, s')"
  shows "wf_rows (rows s')"
proof (cases res)
  case (Inl e)
  with run ensureDirectoryStructure_atomic wf show ?thesis by metis
next
  case (Inr u)
  obtain bad s1 where c1: "db_call s = (bad, s1)" by (cases "db_call s")
  note f1 = db_call_fields [OF c1]
  obtain r2 s2 where c2: "insert_dirs now (Split (Dir p)) [] (rows s1) s1 = (r2, s2)"
    by (cases "insert_dirs now (Split (Dir p)) [] (rows s1) s1")
  obtain bad3 s3 where c3: "db_call s2 = (bad3, s3)" by (cases "db_call s2")
  from run Inr c1 c2 c3 obtain rs where r2: "r2 = Inr rs" and rows': "rows s' = rs"
    by (auto simp: ensureDirectoryStructure_def split: if_splits sum.splits)
  from parts_of_canonical [OF c] show ?thesis
  proof
    assume dot: "Split (Dir p) = [''.'']"
    obtain bad4 s4 where c4: "db_call s1 = (bad4, s4)" by (cases "db_call s1")
    from c2 r2 dot c4 have "rs = insert_or_ignore (dir_row ''.'' now) (rows s1)"
      by (auto simp: Let_def Join_dot split: if_splits)
    with wf f1 rows' show ?thesis
      using wf_rows_insert [of "rows s" "''.''" now] by (simp add: well_formed_def)
  next
    assume "\<forall>e \<in> set (Split (Dir p)). is_name e \<and> CHR ''/'' \<notin> set e"
    from insert_dirs_wf [OF this _ _ c2 [unfolded r2]] wf f1 rows' show ?thesis by simp
  qed
qed

lemma ensureDirectoryStructure_b_wf:
  assumes c: "canonical p" and wf: "wf_rows (rows s)"
    and run: "ensureDirectoryStructure_b now p s = (res, s')"
  shows "wf_rows (rows s')"
proof -
  from parts_of_canonical [OF c] show ?thesis
  proof
    assume dot: "Split (Dir p) = [''.'']"
    obtain bad s1 where c1: "db_call s = (bad, s1)" by (cases "db_call s")
    note f1 = db_call_fields [OF c1]
    from run dot c1 f1 wf show ?thesis
      using wf_rows_insert [of "rows s" "''.''" now]
      by (auto simp: ensureDirectoryStructure_b_def Let_def Join_dot well_formed_def
               split: if_splits)
  next
    assume "\<forall>e \<in> set (Split (Dir p)). is_name e \<and> CHR ''/'' \<notin> set e"
    from insert_dirs_b_wf [OF this _ wf run [unfolded ensureDirectoryStructure_b_def]]
    show ?thesis by simp
  qed
qed

lemma wf_rows_replace:
  "wf_rows rs \<Longrightarrow> well_formed (c_remote r) \<Longrightarrow> wf_rows (insert_or_replace r rs)"
  by (auto simp: wf_rows_def insert_or_replace_def list_all_iff)

lemma Put_write_wf:
  assumes c: "canonical (src_Remote src)" and wf: "wf_rows (rows s)"
  shows "wf_rows (rows (snd (Put_write md5 now inp src s)))"
proof -
  obtain r1 s1 where e: "ensureDirectoryStructure now (src_Remote src) s = (r1, s1)"
    by (cases "ensureDirectoryStructure now (src_Remote src) s")
  note w1 = ensureDirectoryStructure_wf [OF c wf e]
  have wp: "well_formed (src_Remote src)" using c by (simp add: well_formed_def)
  show ?thesis
    unfolding Put_write_def using e w1
    by (auto simp: Let_def wp intro!: wf_rows_replace split: sum.splits prod.splits
             dest!: db_call_fields)
qed

lemma Put_b_wf:
  assumes c: "canonical (src_Remote src)" and wf: "wf_rows (rows s)"
  shows "wf_rows (rows (snd (Put_b now inp src s)))"
proof -
  obtain r1 s1 where e: "ensureDirectoryStructure_b now (src_Remote src) s = (r1, s1)"
    by (cases "ensureDirectoryStructure_b now (src_Remote src) s")
  note w1 = ensureDirectoryStructure_b_wf [OF c wf e]
  have wp: "well_formed (src_Remote src)" using c by (simp add: well_formed_def)
  show ?thesis
    unfolding Put_b_def using e w1
    by (auto simp: Let_def wp intro!: wf_rows_replace split: sum.splits prod.splits
             dest!: db_call_fields)
qed

lemma Put_wf:
  assumes c: "canonical (src_Remote src)" and wf: "wf_rows (rows s)"
  shows "wf_rows (rows (snd (Put md5 now inp src s)))"
proof -
  obtain r0 s0 where n: "NewObject (src_Remote src) s = (r0, s0)"
    by (cases "NewObject (src_Remote src) s")
  from NewObject_state [OF n] wf have wf0: "wf_rows (rows s0)" by simp
  from Put_write_wf [OF c wf0, of md5 now inp] n wf0 show ?thesis
    by (auto simp: Put_def Let_def split: sum.splits)
qed

section \<open>Where the two files part from the specification\<close>

text \<open>
  Claim C1 (not met by the code). \<^verbatim>\<open>Put\<close> of \<^verbatim>\<open>virtualfs.go\<close> does not look the
  record up. On the state whose record of \<^verbatim>\<open>d/x.txt\<close> has the size, the time and the
  hash of the candidate, and whose content the consumer has taken away, it copies the
  content into the tree again; \<^verbatim>\<open>Put\<close> of \<^verbatim>\<open>part_000\<close> skips there. And
  \<^verbatim>\<open>Put\<close> of \<^verbatim>\<open>part_000\<close> stores the modification time to the second: after a
  candidate whose time has a fraction of a second has been put once (and the consumer
  has taken the content), putting the same candidate again writes the content again,
  while the candidate with the whole second is skipped. Straight after the first call,
  too, the second call reads its reader, as a reader that breaks shows.
\<close>

theorem Put_identical_candidate_written_again:
  "tree s_ingested = [(''root'', Directory), (''root/d'', Directory)]
   \<and> Put md5_ex (Time 7 0) in_same src_same s_ingested = (Inr o_x, s_ingested)
   \<and> Put_b (Time 7 0) in_same src_same s_ingested
       = (Inr o_x,
          s_ingested\<lparr>tree := [(''root'', Directory), (''root/d'', Directory),
                               (''root/d/x.txt'', File [1, 2, 3])]\<rparr>)
   \<and> Put md5_ex (Time 7 0) in_same src_subsec s_fresh
       = (Inr \<lparr>remote = ''y.txt'', osize = 3, modTime = Time 100 500, hasHash = True,
               hash = md5_ex [1, 2, 3], deleted = False, isDir = False\<rparr>, s_y)
   \<and> Put md5_ex (Time 8 0) in_same src_subsec (s_y\<lparr>tree := [(''root'', Directory)]\<rparr>)
       = (Inr \<lparr>remote = ''y.txt'', osize = 3, modTime = Time 100 500, hasHash = True,
               hash = md5_ex [1, 2, 3], deleted = False, isDir = False\<rparr>, s_y)
   \<and> Put md5_ex (Time 8 0) in_same src_whole (s_y\<lparr>tree := [(''root'', Directory)]\<rparr>)
       = (Inr \<lparr>remote = ''y.txt'', osize = 3, modTime = Time 100 0, hasHash = True,
               hash = md5_ex [1, 2, 3], deleted = False, isDir = False\<rparr>,
          s_y\<lparr>tree := [(''root'', Directory)]\<rparr>)
   \<and> Put md5_ex (Time 8 0) in_broken src_subsec s_y
       = (Inl CopyError,
          s_y\<lparr>tree := [(''root'', Directory), (''root/y.txt'', File [7, 7])]\<rparr>)
   \<and> Put md5_ex (Time 8 0) in_broken src_whole s_y
       = (Inr \<lparr>remote = ''y.txt'', osize = 3, modTime = Time 100 0, hasHash = True,
               hash = md5_ex [1, 2, 3], deleted = False, isDir = False\<rparr>, s_y)"
  by code_simp

text \<open>
  Claim C2 (not met by the code). \<^verbatim>\<open>Object.Update\<close> of \<^verbatim>\<open>part_000\<close> tests the
  modification time the wrong way round. For the object of size 3, time 100 and hash
  \<^verbatim>\<open>h1\<close>, a source of the same size and hash (or from a remote without MD5) whose
  time is 900 is skipped: the object and the state come back as they were, whatever the
  reader holds. The source with the same time is not skipped: the content is written.
\<close>

theorem Update_skips_changed_modTime:
  "\<not> Equal (src_ModTime src_touched) (modTime o_x)
   \<and> Update md5 inp src_touched o_x s = (Inr o_x, s)
   \<and> Update md5 inp src_touched_nohash o_x s = (Inr o_x, s)
   \<and> Update md5_ex in_same src_same o_x s_ingested
       = (Inr (o_x\<lparr>hash := md5_ex [1, 2, 3]\<rparr>),
          s_ingested\<lparr>tree := [(''root'', Directory), (''root/d'', Directory),
                               (''root/d/x.txt'', File [1, 2, 3])],
                      rows := [dir_row ''d'' (Time 1 0),
                               file_row ''d/x.txt'' 3 100 (md5_ex [1, 2, 3])]\<rparr>)"
proof -
  have a: "\<not> Equal (src_ModTime src_touched) (modTime o_x)"
    by code_simp
  have b: "Update md5 inp src_touched o_x s = (Inr o_x, s)"
    by (simp add: Update_def src_touched_def o_x_def scan_def file_row_def Equal_def
                  year_0_def year_10000_def)
  have c: "Update md5 inp src_touched_nohash o_x s = (Inr o_x, s)"
    by (simp add: Update_def src_touched_nohash_def o_x_def scan_def file_row_def Equal_def
                  year_0_def year_10000_def)
  have d: "Update md5_ex in_same src_same o_x s_ingested
       = (Inr (o_x\<lparr>hash := md5_ex [1, 2, 3]\<rparr>),
          s_ingested\<lparr>tree := [(''root'', Directory), (''root/d'', Directory),
                               (''root/d/x.txt'', File [1, 2, 3])],
                      rows := [dir_row ''d'' (Time 1 0),
                               file_row ''d/x.txt'' 3 100 (md5_ex [1, 2, 3])]\<rparr>)"
    by code_simp
  from a b c d show ?thesis by simp
qed

theorem Update_skips_changed_modTime_witness:
  "Update md5_ex in_new src_touched o_x s_live = (Inr o_x, s_live)
   \<and> Update md5_ex in_new src_touched_nohash o_x s_live = (Inr o_x, s_live)
   \<and> map_of (tree s_live) ''root/d/x.txt'' = Some (File [1, 2, 3])"
proof -
  have kept: "map_of (tree s_live) ''root/d/x.txt'' = Some (File [1, 2, 3])"
    by code_simp
  from Update_skips_changed_modTime [of md5_ex in_new s_live] kept
  show ?thesis by simp
qed

text \<open>
  Claim C3 (not met by the code). \<^verbatim>\<open>Put\<close> and \<^verbatim>\<open>Update\<close> of \<^verbatim>\<open>virtualfs.go\<close>
  store the hash the source reports, not a digest of the bytes copied. Writing the four
  bytes of \<^verbatim>\<open>in_new\<close>: with a source that reports the hash \<^verbatim>\<open>h1\<close> the row holds
  \<^verbatim>\<open>h1\<close>; with a source from a remote without MD5 the row holds no hash at all.
  \<^verbatim>\<open>Put\<close> of \<^verbatim>\<open>part_000\<close> stores the digest of the four bytes.
\<close>

theorem hash_taken_from_source:
  "map_of (tree (snd (Put_b (Time 7 0) in_new src_touched s_live))) ''root/d/x.txt''
     = Some (File [4, 5, 6, 7])
   \<and> select_remote ''d/x.txt'' (rows (snd (Put_b (Time 7 0) in_new src_touched s_live)))
       = Some (written_row ''d/x.txt'' in_new src_touched ''h1'')
   \<and> select_remote ''d/x.txt'' (rows (snd (Update_b in_new src_touched o_x s_live)))
       = Some (written_row ''d/x.txt'' in_new src_touched ''h1'')
   \<and> select_remote ''d/x.txt'' (rows (snd (Put_b (Time 7 0) in_new src_touched_nohash s_live)))
       = Some (written_row ''d/x.txt'' in_new src_touched_nohash [])
   \<and> select_remote ''d/x.txt'' (rows (snd (Update_b in_new src_touched_nohash o_x s_live)))
       = Some (written_row ''d/x.txt'' in_new src_touched_nohash [])
   \<and> select_remote ''d/x.txt'' (rows (snd (Put md5_ex (Time 7 0) in_new src_touched s_live)))
       = Some (written_row ''d/x.txt'' in_new src_touched (md5_ex [4, 5, 6, 7]))"
  by code_simp

text \<open>
  Claim C9 (not met by the code). \<^verbatim>\<open>ensureDirectoryStructure\<close> of
  \<^verbatim>\<open>virtualfs.go\<close> runs its statements outside a transaction. For the path
  \<^verbatim>\<open>a/b/c.txt\<close> on the empty table, when the statement for \<^verbatim>\<open>a/b\<close> fails the
  error is returned and the row of \<^verbatim>\<open>a\<close> stays. \<^verbatim>\<open>ensureDirectoryStructure\<close> of
  \<^verbatim>\<open>part_000\<close>, whose first statement opens the transaction, leaves the table
  empty.
\<close>

theorem ensureDirectoryStructure_b_keeps_earlier_rows:
  "ensureDirectoryStructure_b (Time 7 0) ''a/b/c.txt'' (s_fresh\<lparr>faults := [False, True]\<rparr>)
     = (Inl (Wrapped ''failed to insert directory a/b'' StoreError),
        s_fresh\<lparr>rows := [dir_row ''a'' (Time 7 0)]\<rparr>)
   \<and> ensureDirectoryStructure (Time 7 0) ''a/b/c.txt'' (s_fresh\<lparr>faults := [False, False, True]\<rparr>)
       = (Inl (Wrapped ''failed to insert directory a/b'' StoreError), s_fresh)"
  by code_simp

end
